theory Spec2Isabelle
  imports Complex_Main
begin

section \<open>Python values used by \<open>app/parse.py\<close>\<close>

text \<open>
  The module raises through library calls only. The exceptions that depend on the
  data the module handles are modelled as values: a failed element lookup
  (\<open>NoSuchElementException\<close>), a failed \<open>float\<close> or \<open>int\<close> conversion
  (\<open>ValueError\<close>), an index out of range (\<open>IndexError\<close>) and a destination that
  cannot be opened (\<open>OSError\<close>). A lost browser session or an intercepted click are
  outside the model.
\<close>

datatype error = NoSuchElementException | ValueError | IndexError | OSError

text \<open>
  A string is a list of characters, and a character is a code point below 256: the
  texts are those of Latin-1. \<open>is_space\<close> is \<open>str.isspace\<close> on these code points,
  the whitespace at which \<open>str.split\<close> splits: tab, line feed, vertical tab, form
  feed, carriage return, the four separators \<open>0x1c\<close> to \<open>0x1f\<close>, the space, the next
  line control \<open>0x85\<close> and the no-break space \<open>0xa0\<close>. \<open>is_c_space\<close> is the
  whitespace that the conversions \<open>int\<close> and \<open>float\<close> skip around a number: the same
  without the four separators.
\<close>

definition is_space :: "char \<Rightarrow> bool" where
  "is_space c =
     (let n = (of_char c :: nat)
      in (9 \<le> n \<and> n \<le> 13) \<or> (28 \<le> n \<and> n \<le> 32) \<or> n = 133 \<or> n = 160)"

definition is_c_space :: "char \<Rightarrow> bool" where
  "is_c_space c =
     (let n = (of_char c :: nat) in (9 \<le> n \<and> n \<le> 13) \<or> n = 32 \<or> n = 133 \<or> n = 160)"

definition is_digit :: "char \<Rightarrow> bool" where
  "is_digit c = (let n = (of_char c :: nat) in 48 \<le> n \<and> n \<le> 57)"

definition digit_val :: "char \<Rightarrow> nat" where
  "digit_val c = of_char c - 48"

definition to_lower :: "char \<Rightarrow> char" where
  "to_lower c = (let n = (of_char c :: nat) in if 65 \<le> n \<and> n \<le> 90 then char_of (n + 32) else c)"

text \<open>The text of a number, the whitespace before and after it removed.\<close>

definition number_text :: "string \<Rightarrow> string" where
  "number_text s = rev (dropWhile is_c_space (rev (dropWhile is_c_space s)))"

text \<open>
  \<open>s.split()\<close> with no separator: the maximal runs of non-whitespace characters, in
  order; no empty string is ever produced. \<open>tok\<close> is the run read so far.
\<close>

fun split_from :: "string \<Rightarrow> string \<Rightarrow> string list" where
  "split_from tok [] = (if tok = [] then [] else [tok])"
| "split_from tok (c # cs) =
     (if is_space c then (if tok = [] then split_from [] cs else tok # split_from [] cs)
      else split_from (tok @ [c]) cs)"

definition py_split :: "string \<Rightarrow> string list" where
  "py_split s = split_from [] s"

text \<open>
  \<open>s.replace(old, new)\<close>: every non-overlapping occurrence of \<open>old\<close>, found from the
  left, replaced by \<open>new\<close>. With an empty \<open>old\<close> Python inserts \<open>new\<close> before every
  character and at the end.
\<close>

fun replace_from :: "string \<Rightarrow> string \<Rightarrow> string \<Rightarrow> string" where
  "replace_from old new [] = []"
| "replace_from old new (c # cs) =
     (if old \<noteq> [] \<and> take (length old) (c # cs) = old
      then new @ replace_from old new (drop (length old) (c # cs))
      else c # replace_from old new cs)"

definition py_replace :: "string \<Rightarrow> string \<Rightarrow> string \<Rightarrow> string" where
  "py_replace s old new =
     (if old = [] then new @ concat (map (\<lambda>c. c # new) s) else replace_from old new s)"

text \<open>
  A \<open>digitpart\<close> of Python's numeric grammar: decimal digits with single underscores
  allowed between two digits. \<open>digitpart s\<close> is the digits of \<open>s\<close> when the whole of
  \<open>s\<close> is a digitpart.
\<close>

fun digits_from :: "string \<Rightarrow> string \<Rightarrow> string option" where
  "digits_from acc [] = Some acc"
| "digits_from acc [c] = (if is_digit c then Some (acc @ [c]) else None)"
| "digits_from acc (c # d # cs) =
     (if is_digit c then digits_from (acc @ [c]) (d # cs)
      else if c = CHR ''_'' \<and> is_digit d then digits_from (acc @ [d]) cs
      else None)"

definition digitpart :: "string \<Rightarrow> string option" where
  "digitpart s = (case s of [] \<Rightarrow> None
     | c # cs \<Rightarrow> if is_digit c then digits_from [c] cs else None)"

definition digits_value :: "string \<Rightarrow> nat" where
  "digits_value ds = foldl (\<lambda>n c. 10 * n + digit_val c) 0 ds"

text \<open>An optional sign in front of the rest: \<open>True\<close> for a minus.\<close>

definition take_sign :: "string \<Rightarrow> bool \<times> string" where
  "take_sign s = (case s of [] \<Rightarrow> (False, [])
     | c # cs \<Rightarrow> if c = CHR ''-'' then (True, cs)
                else if c = CHR ''+'' then (False, cs) else (False, c # cs))"

text \<open>
  \<open>int(s)\<close> on a string, base ten: whitespace skipped, an optional sign, a digitpart
  of at most 4300 digits (the interpreter's default limit on the conversion).
  \<open>None\<close> is the \<open>ValueError\<close>.
\<close>

definition py_int :: "string \<Rightarrow> int option" where
  "py_int s =
     (let (neg, body) = take_sign (number_text s) in
      case digitpart body of
        None \<Rightarrow> None
      | Some ds \<Rightarrow>
          if 4300 < length ds then None
          else Some (if neg then - int (digits_value ds) else int (digits_value ds)))"

text \<open>
  \<open>float(s)\<close> on a string. The grammar is Python's: whitespace skipped, an optional
  sign, then \<open>inf\<close>, \<open>infinity\<close> or \<open>nan\<close> in any case, or a decimal number
  \<open>[digitpart] . digitpart | digitpart [.]\<close> with an optional exponent
  \<open>(e | E) [sign] digitpart\<close>. \<open>None\<close> is the \<open>ValueError\<close>.

  \<open>Finite x\<close> stands for the double that Python stores for a text of the decimal
  value \<open>x\<close>: the double nearest to \<open>x\<close>. The rounding is not computed, so that
  two values \<open>Finite x\<close> and \<open>Finite y\<close> can stand for the same double: the one of
  \<open>1e400\<close> is the infinity, the one of \<open>1e-400\<close> is zero, and the sign of a zero is
  not kept. Nothing below compares two prices but those of the same text.
\<close>

datatype pyfloat = Finite rat | Infinite bool | NaN

definition is_exp_mark :: "char \<Rightarrow> bool" where
  "is_exp_mark c = (c = CHR ''e'' \<or> c = CHR ''E'')"

text \<open>The digits before and after the point of a \<open>number\<close>.\<close>

definition parse_number :: "string \<Rightarrow> (string \<times> string) option" where
  "parse_number s =
     (let ip = takeWhile (\<lambda>c. c \<noteq> CHR ''.'') s; rest = dropWhile (\<lambda>c. c \<noteq> CHR ''.'') s in
      case rest of
        [] \<Rightarrow> (case digitpart ip of None \<Rightarrow> None | Some ds \<Rightarrow> Some (ds, []))
      | _ # fp \<Rightarrow>
          if ip = [] then (case digitpart fp of None \<Rightarrow> None | Some fs \<Rightarrow> Some ([], fs))
          else (case digitpart ip of
                  None \<Rightarrow> None
                | Some ds \<Rightarrow>
                    if fp = [] then Some (ds, [])
                    else (case digitpart fp of None \<Rightarrow> None | Some fs \<Rightarrow> Some (ds, fs))))"

text \<open>The exponent part after the mantissa: absent, or a mark, a sign and a digitpart.\<close>

definition parse_exponent :: "string \<Rightarrow> int option" where
  "parse_exponent s = (case s of [] \<Rightarrow> Some 0
     | _ # ex \<Rightarrow>
         (let (neg, body) = take_sign ex in
          case digitpart body of
            None \<Rightarrow> None
          | Some ds \<Rightarrow> Some (if neg then - int (digits_value ds) else int (digits_value ds))))"

definition decimal_value :: "string \<Rightarrow> string \<Rightarrow> int \<Rightarrow> rat" where
  "decimal_value ds fs ex =
     (let m = (of_nat (digits_value (ds @ fs)) :: rat); e = ex - int (length fs) in
      if 0 \<le> e then m * 10 ^ nat e else m / 10 ^ nat (- e))"

definition py_float :: "string \<Rightarrow> pyfloat option" where
  "py_float s =
     (let (neg, body) = take_sign (number_text s); low = map to_lower body in
      if low = ''inf'' \<or> low = ''infinity'' then Some (Infinite neg)
      else if low = ''nan'' then Some NaN
      else
        (case parse_number (takeWhile (\<lambda>c. \<not> is_exp_mark c) body) of
           None \<Rightarrow> None
         | Some (ds, fs) \<Rightarrow>
            (case parse_exponent (dropWhile (\<lambda>c. \<not> is_exp_mark c) body) of
               None \<Rightarrow> None
             | Some ex \<Rightarrow>
                 Some (Finite (if neg then - decimal_value ds fs ex else decimal_value ds fs ex)))))"

section \<open>The data model\<close>

text \<open>
  The dataclass \<open>Product\<close>. Its annotations are not checked at run time:
  \<open>get_attribute\<close> returns \<open>None\<close> for an attribute the element does not have, and
  the title then is \<open>None\<close>.
\<close>

record Product =
  title :: "string option"
  description :: string
  price :: pyfloat
  rating :: int
  num_of_reviews :: int

text \<open>\<open>PRODUCT_FIELDS\<close>: the names of the dataclass fields, in declaration order.\<close>

definition PRODUCT_FIELDS :: "string list" where
  "PRODUCT_FIELDS = [''title'', ''description'', ''price'', ''rating'', ''num_of_reviews'']"

text \<open>
  A row handed to \<open>csv.writer\<close> is a sequence of Python values. How the writer turns a
  value into text (quoting, the text of a float) belongs to the \<open>csv\<close> module; a
  file is kept as the rows written to it.
\<close>

datatype cell = CNone | CStr string | CFloat pyfloat | CInt int

type_synonym row = "cell list"

definition astuple :: "Product \<Rightarrow> row" where
  "astuple p =
     [case title p of None \<Rightarrow> CNone | Some t \<Rightarrow> CStr t,
      CStr (description p), CFloat (price p), CInt (rating p), CInt (num_of_reviews p)]"

section \<open>The browser and the process state\<close>

text \<open>
  The Selenium driver is a collaborator: the module sees it through the calls below.
  \<open>'b\<close> is the state of the browser session (the page as rendered), \<open>'e\<close> the
  element handles. Lookups are by CSS selector, in the whole page (\<open>None\<close>) or under
  an element (\<open>Some el\<close>). The state changes at a click or a navigation only.
\<close>

record ('b, 'e) webdriver =
  find_elements :: "'b \<Rightarrow> 'e option \<Rightarrow> string \<Rightarrow> 'e list"
  get_attribute :: "'b \<Rightarrow> 'e \<Rightarrow> string \<Rightarrow> string option"
  el_text :: "'b \<Rightarrow> 'e \<Rightarrow> string"
  value_of_css_property :: "'b \<Rightarrow> 'e \<Rightarrow> string \<Rightarrow> string"
  script_click :: "'b \<Rightarrow> 'e \<Rightarrow> 'b"
  el_click :: "'b \<Rightarrow> 'e \<Rightarrow> 'b"
  get_url :: "'b \<Rightarrow> string \<Rightarrow> 'b"

text \<open>
  What a run can change: the browser, the files (a file is the rows written to it),
  and the log. \<open>writable\<close> tells which destinations \<open>open(filename, "w")\<close> can open.
  \<open>clicks\<close> records the elements on which the module dispatched a click, in order.
\<close>

record ('b, 'e) world =
  browser :: 'b
  files :: "string \<rightharpoonup> row list"
  writable :: "string \<Rightarrow> bool"
  log :: "string list"
  clicks :: "'e list"

type_synonym ('a, 'b, 'e) run = "((error + 'a) \<times> ('b, 'e) world) option"

definition logging_info :: "string \<Rightarrow> ('b, 'e) world \<Rightarrow> ('b, 'e) world" where
  "logging_info msg w = w\<lparr>log := log w @ [msg]\<rparr>"

text \<open>
  \<open>find_element\<close> is the first element \<open>find_elements\<close> gives, and raises when there
  is none.
\<close>

definition find_element :: "('b, 'e) webdriver \<Rightarrow> 'b \<Rightarrow> 'e option \<Rightarrow> string \<Rightarrow> error + 'e" where
  "find_element drv b ctx sel =
     (case find_elements drv b ctx sel of [] \<Rightarrow> Inl NoSuchElementException | el # _ \<Rightarrow> Inr el)"

text \<open>\<open>driver.execute_script("arguments[0].click();", el)\<close>\<close>

definition execute_script_click :: "('b, 'e) webdriver \<Rightarrow> 'e \<Rightarrow> ('b, 'e) world \<Rightarrow> ('b, 'e) world" where
  "execute_script_click drv el w =
     w\<lparr>browser := script_click drv (browser w) el, clicks := clicks w @ [el]\<rparr>"

text \<open>\<open>driver.get(url)\<close>\<close>

definition driver_get :: "('b, 'e) webdriver \<Rightarrow> string \<Rightarrow> ('b, 'e) world \<Rightarrow> ('b, 'e) world" where
  "driver_get drv url w = w\<lparr>browser := get_url drv (browser w) url\<rparr>"

text \<open>\<open>el.click()\<close>\<close>

definition element_click :: "('b, 'e) webdriver \<Rightarrow> 'e \<Rightarrow> ('b, 'e) world \<Rightarrow> ('b, 'e) world" where
  "element_click drv el w =
     w\<lparr>browser := el_click drv (browser w) el, clicks := clicks w @ [el]\<rparr>"

section \<open>Extraction of one product\<close>

text \<open>
  The five keyword arguments of the \<open>Product(...)\<close> call in \<open>parse_single_product\<close>,
  each under the name of its field. Python evaluates them in the order written.
\<close>

definition title_field :: "('b, 'e) webdriver \<Rightarrow> 'b \<Rightarrow> 'e \<Rightarrow> error + string option" where
  "title_field drv b product_element =
     (case find_element drv b (Some product_element) ''.title'' of
        Inl e \<Rightarrow> Inl e
      | Inr el \<Rightarrow> Inr (get_attribute drv b el ''title''))"

definition description_field :: "('b, 'e) webdriver \<Rightarrow> 'b \<Rightarrow> 'e \<Rightarrow> error + string" where
  "description_field drv b product_element =
     (case find_element drv b (Some product_element) ''.description'' of
        Inl e \<Rightarrow> Inl e
      | Inr el \<Rightarrow> Inr (el_text drv b el))"

definition price_field :: "('b, 'e) webdriver \<Rightarrow> 'b \<Rightarrow> 'e \<Rightarrow> error + pyfloat" where
  "price_field drv b product_element =
     (case find_element drv b (Some product_element) ''.price'' of
        Inl e \<Rightarrow> Inl e
      | Inr el \<Rightarrow>
          (case py_float (py_replace (el_text drv b el) ''$'' '''') of
             None \<Rightarrow> Inl ValueError
           | Some x \<Rightarrow> Inr x))"

definition rating_field :: "('b, 'e) webdriver \<Rightarrow> 'b \<Rightarrow> 'e \<Rightarrow> error + int" where
  "rating_field drv b product_element =
     Inr (int (length (find_elements drv b (Some product_element) ''.ratings .ws-icon-star'')))"

definition num_of_reviews_field :: "('b, 'e) webdriver \<Rightarrow> 'b \<Rightarrow> 'e \<Rightarrow> error + int" where
  "num_of_reviews_field drv b product_element =
     (case find_element drv b (Some product_element) ''.ratings > p.float-end'' of
        Inl e \<Rightarrow> Inl e
      | Inr el \<Rightarrow>
          (case py_split (el_text drv b el) of
             [] \<Rightarrow> Inl IndexError
           | tok # _ \<Rightarrow> (case py_int tok of None \<Rightarrow> Inl ValueError | Some n \<Rightarrow> Inr n)))"

definition parse_single_product :: "('b, 'e) webdriver \<Rightarrow> 'b \<Rightarrow> 'e \<Rightarrow> error + Product" where
  "parse_single_product drv b product_element =
     (case title_field drv b product_element of Inl e \<Rightarrow> Inl e | Inr t \<Rightarrow>
     (case description_field drv b product_element of Inl e \<Rightarrow> Inl e | Inr d \<Rightarrow>
     (case price_field drv b product_element of Inl e \<Rightarrow> Inl e | Inr p \<Rightarrow>
     (case rating_field drv b product_element of Inl e \<Rightarrow> Inl e | Inr r \<Rightarrow>
     (case num_of_reviews_field drv b product_element of Inl e \<Rightarrow> Inl e | Inr n \<Rightarrow>
        Inr \<lparr>title = t, description = d, price = p, rating = r, num_of_reviews = n\<rparr>)))))"

section \<open>The products of one page\<close>

text \<open>
  The list comprehension of \<open>get_single_page_products\<close>: the elements are parsed from
  left to right, and the first exception leaves the comprehension.
\<close>

fun comprehension :: "('a \<Rightarrow> error + 'p) \<Rightarrow> 'a list \<Rightarrow> error + 'p list" where
  "comprehension f [] = Inr []"
| "comprehension f (x # xs) =
     (case f x of
        Inl e \<Rightarrow> Inl e
      | Inr p \<Rightarrow> (case comprehension f xs of Inl e \<Rightarrow> Inl e | Inr ps \<Rightarrow> Inr (p # ps)))"

definition get_single_page_products :: "('b, 'e) webdriver \<Rightarrow> 'b \<Rightarrow> error + Product list" where
  "get_single_page_products drv b =
     (let product_elements = find_elements drv b None ''.thumbnail'' in
      comprehension (parse_single_product drv b) product_elements)"

section \<open>Writing a category\<close>

definition write_products_to_csv ::
  "Product list \<Rightarrow> string \<Rightarrow> ('b, 'e) world \<Rightarrow> (error + unit) \<times> ('b, 'e) world" where
  "write_products_to_csv products filename w =
     (if writable w filename
      then (Inr (), w\<lparr>files := (files w)(filename \<mapsto> map CStr PRODUCT_FIELDS # map astuple products)\<rparr>)
      else (Inl OSError, w))"

section \<open>Scraping a category\<close>

text \<open>
  The \<open>while True\<close> loop of \<open>scrape_products\<close>. One iteration looks the button up;
  a button that is absent, or whose \<open>display\<close> is \<open>none\<close>, raises
  \<open>NoSuchElementException\<close>, which the handler logs before it leaves the loop. Any
  other button is clicked and the loop goes on. The loop has no bound: \<open>None\<close>
  is a loop that never ends.
\<close>

definition LAST_PAGE_MESSAGE :: string where
  "LAST_PAGE_MESSAGE =
     ''Reached the last page of products or '' @ [CHR 0x27] @ ''More'' @ [CHR 0x27] @ '' button not found.''"

partial_function (option) more_button_loop ::
  "('b, 'e) webdriver \<Rightarrow> string \<Rightarrow> ('b, 'e) world \<Rightarrow> ((error + unit) \<times> ('b, 'e) world) option" where
  "more_button_loop drv pagination_selector w =
     (case find_element drv (browser w) None pagination_selector of
        Inl e \<Rightarrow>
          if e = NoSuchElementException then Some (Inr (), logging_info LAST_PAGE_MESSAGE w)
          else Some (Inl e, w)
      | Inr more_button \<Rightarrow>
          if value_of_css_property drv (browser w) more_button ''display'' = ''none''
          then Some (Inr (), logging_info LAST_PAGE_MESSAGE w)
          else more_button_loop drv pagination_selector
                 (execute_script_click drv more_button
                    (logging_info ''More button found, attempting to click.'' w)))"

text \<open>
  \<open>pagination_selector\<close> is optional; \<open>if pagination_selector:\<close> is false for
  \<open>None\<close> and for the empty string, and the loop is skipped.
\<close>

definition paginate ::
  "('b, 'e) webdriver \<Rightarrow> string option \<Rightarrow> ('b, 'e) world \<Rightarrow> ((error + unit) \<times> ('b, 'e) world) option" where
  "paginate drv pagination_selector w =
     (case pagination_selector of
        None \<Rightarrow> Some (Inr (), w)
      | Some sel \<Rightarrow> if sel = [] then Some (Inr (), w) else more_button_loop drv sel w)"

definition scrape_products ::
  "('b, 'e) webdriver \<Rightarrow> string \<Rightarrow> string \<Rightarrow> string option \<Rightarrow> ('b, 'e) world
     \<Rightarrow> (Product list, 'b, 'e) run" where
  "scrape_products drv category_selector filename pagination_selector w =
     (let w1 = logging_info (''Start parsing '' @ py_replace filename ''.csv'' '''' @ '' products'') w in
      case find_element drv (browser w1) None category_selector of
        Inl e \<Rightarrow> Some (Inl e, w1)
      | Inr category_link \<Rightarrow>
         (let w2 = execute_script_click drv category_link w1 in
          case paginate drv pagination_selector w2 of
            None \<Rightarrow> None
          | Some (Inl e, w3) \<Rightarrow> Some (Inl e, w3)
          | Some (Inr u, w3) \<Rightarrow>
             (case get_single_page_products drv (browser w3) of
                Inl e \<Rightarrow> Some (Inl e, w3)
              | Inr products \<Rightarrow>
                 (case write_products_to_csv products filename w3 of
                    (Inl e, w4) \<Rightarrow> Some (Inl e, w4)
                  | (Inr u, w4) \<Rightarrow> Some (Inr products, w4)))))"

section \<open>The run\<close>

definition accept_cookies :: "('b, 'e) webdriver \<Rightarrow> ('b, 'e) world \<Rightarrow> (error + unit) \<times> ('b, 'e) world" where
  "accept_cookies drv w =
     (case find_element drv (browser w) None ''#cookieBanner > div.acceptContainer > button'' of
        Inl e \<Rightarrow>
          if e = NoSuchElementException
          then (Inr (), logging_info ''Cookie accept button not found.'' w)
          else (Inl e, w)
      | Inr cookie_button \<Rightarrow>
          (Inr (), logging_info ''Cookie was successfully accepted'' (element_click drv cookie_button w)))"

text \<open>\<open>urljoin(BASE_URL, "test-sites/e-commerce/more/")\<close>\<close>

definition HOME_URL :: string where
  "HOME_URL = ''https://webscraper.io/test-sites/e-commerce/more/''"

text \<open>
  One statement after another: the next statement runs in the state the first one
  left, unless the first raised or never returned. The value of the first is dropped,
  as \<open>get_all_products\<close> drops what \<open>scrape_products\<close> returns.
\<close>

definition and_then :: "('a, 'b, 'e) run \<Rightarrow> (('b, 'e) world \<Rightarrow> ('c, 'b, 'e) run) \<Rightarrow> ('c, 'b, 'e) run" where
  "and_then m f =
     (case m of None \<Rightarrow> None | Some (Inl e, w) \<Rightarrow> Some (Inl e, w) | Some (Inr x, w) \<Rightarrow> f w)"

text \<open>
  \<open>get_all_products\<close>, from the session the \<open>with\<close> statement opened (the browser of
  \<open>w\<close>). The function has no \<open>return\<close>: its value is \<open>None\<close>, here the unit.
\<close>

definition get_all_products :: "('b, 'e) webdriver \<Rightarrow> ('b, 'e) world \<Rightarrow> (unit, 'b, 'e) run" where
  "get_all_products drv w =
     and_then (Some (accept_cookies drv (driver_get drv HOME_URL w))) (\<lambda>w.
     and_then (scrape_products drv ''#side-menu a'' ''home.csv'' None w) (\<lambda>w.
     and_then (scrape_products drv ''#side-menu li:nth-of-type(2) a'' ''computers.csv'' None w) (\<lambda>w.
     and_then (scrape_products drv ''#side-menu li:nth-of-type(2) ul a'' ''laptops.csv''
                 (Some ''.col-lg-9 > a'') w) (\<lambda>w.
     and_then (scrape_products drv ''#side-menu .nav-second-level li:nth-child(2) a'' ''tablets.csv''
                 (Some ''.col-lg-9 > a'') w) (\<lambda>w.
     and_then (scrape_products drv ''#side-menu li:nth-of-type(3) a'' ''phones.csv'' None w) (\<lambda>w.
     and_then (scrape_products drv ''#side-menu li:nth-of-type(3) ul a'' ''touch.csv''
                 (Some ''.col-lg-9 > a'') w) (\<lambda>w.
     Some (Inr (), w))))))))"

section \<open>The traversal as the specification words it\<close>

text \<open>
  The specification describes the run as one loop over an ordered list of category
  descriptions that accumulates a result: a mapping from the output name to the
  products of the category. \<open>spec_run\<close> is that loop, written from the specification
  over the source's \<open>scrape_products\<close>; \<open>CATEGORY_SPECS\<close> lists the arguments of the
  six calls of \<open>get_all_products\<close>, in the order of the calls.
\<close>

record CategorySpec =
  entryLocator :: string
  outputName :: string
  paginationAffordanceLocator :: "string option"

type_synonym RunResult = "string \<rightharpoonup> Product list"

fun spec_run ::
  "('b, 'e) webdriver \<Rightarrow> CategorySpec list \<Rightarrow> RunResult \<Rightarrow> ('b, 'e) world \<Rightarrow> (RunResult, 'b, 'e) run" where
  "spec_run drv [] acc w = Some (Inr acc, w)"
| "spec_run drv (c # cs) acc w =
     (case scrape_products drv (entryLocator c) (outputName c) (paginationAffordanceLocator c) w of
        None \<Rightarrow> None
      | Some (Inl e, w') \<Rightarrow> Some (Inl e, w')
      | Some (Inr products, w') \<Rightarrow> spec_run drv cs (acc(outputName c \<mapsto> products)) w')"

definition CATEGORY_SPECS :: "CategorySpec list" where
  "CATEGORY_SPECS =
     [\<lparr>entryLocator = ''#side-menu a'', outputName = ''home.csv'',
       paginationAffordanceLocator = None\<rparr>,
      \<lparr>entryLocator = ''#side-menu li:nth-of-type(2) a'', outputName = ''computers.csv'',
       paginationAffordanceLocator = None\<rparr>,
      \<lparr>entryLocator = ''#side-menu li:nth-of-type(2) ul a'', outputName = ''laptops.csv'',
       paginationAffordanceLocator = Some ''.col-lg-9 > a''\<rparr>,
      \<lparr>entryLocator = ''#side-menu .nav-second-level li:nth-child(2) a'', outputName = ''tablets.csv'',
       paginationAffordanceLocator = Some ''.col-lg-9 > a''\<rparr>,
      \<lparr>entryLocator = ''#side-menu li:nth-of-type(3) a'', outputName = ''phones.csv'',
       paginationAffordanceLocator = None\<rparr>,
      \<lparr>entryLocator = ''#side-menu li:nth-of-type(3) ul a'', outputName = ''touch.csv'',
       paginationAffordanceLocator = Some ''.col-lg-9 > a''\<rparr>]"

text \<open>The state in which the first category starts: the home page, cookies handled.\<close>

definition after_cookies :: "('b, 'e) webdriver \<Rightarrow> ('b, 'e) world \<Rightarrow> ('b, 'e) world" where
  "after_cookies drv w = snd (accept_cookies drv (driver_get drv HOME_URL w))"

text \<open>
  The harvest the specification describes: the products of the items whose extraction
  succeeds, in page order, the failing items left out.
\<close>

definition spec_harvest :: "('b, 'e) webdriver \<Rightarrow> 'b \<Rightarrow> Product list" where
  "spec_harvest drv b =
     concat (map (\<lambda>el. case parse_single_product drv b el of Inl e \<Rightarrow> [] | Inr p \<Rightarrow> [p])
               (find_elements drv b None ''.thumbnail''))"

section \<open>The pagination button as the loop sees it\<close>

text \<open>
  \<open>more_visible\<close>: the button is found and its \<open>display\<close> is not \<open>none\<close>, which is
  when an iteration clicks. \<open>next_page\<close> is the browser after that click.
\<close>

definition more_visible :: "('b, 'e) webdriver \<Rightarrow> string \<Rightarrow> 'b \<Rightarrow> bool" where
  "more_visible drv sel b =
     (case find_element drv b None sel of
        Inl e \<Rightarrow> False
      | Inr el \<Rightarrow> value_of_css_property drv b el ''display'' \<noteq> ''none'')"

definition next_page :: "('b, 'e) webdriver \<Rightarrow> string \<Rightarrow> 'b \<Rightarrow> 'b" where
  "next_page drv sel b =
     (case find_element drv b None sel of Inl e \<Rightarrow> b | Inr el \<Rightarrow> script_click drv b el)"

text \<open>The world after the part of an iteration that clicks: the log line and the click.\<close>

definition click_more :: "('b, 'e) webdriver \<Rightarrow> string \<Rightarrow> ('b, 'e) world \<Rightarrow> ('b, 'e) world" where
  "click_more drv sel w =
     (case find_element drv (browser w) None sel of
        Inl e \<Rightarrow> w
      | Inr el \<Rightarrow>
          execute_script_click drv el (logging_info ''More button found, attempting to click.'' w))"

section \<open>A small shop\<close>

text \<open>
  A concrete site on which the definitions run. The page shows two products, the
  elements 10 and 20; the parts of a product are the elements that follow it. The
  first product is well formed; the price text and the reviews text of the second,
  and the category links present in the menu, are parameters. The browser state counts
  the clicks on the pagination button (element 1), which is there until it has been
  clicked twice; a click on a category link resets the count.
\<close>

definition shop :: "string \<Rightarrow> string \<Rightarrow> string list \<Rightarrow> (nat, nat) webdriver" where
  "shop price2 reviews2 menu =
     \<lparr>find_elements = (\<lambda>b ctx sel.
        case ctx of
          None \<Rightarrow>
            if sel = ''.thumbnail'' then [10, 20]
            else if sel = ''.col-lg-9 > a'' then (if b < 2 then [1] else [])
            else if sel \<in> set menu then [2] else []
        | Some el \<Rightarrow>
            if sel = ''.title'' then [el + 1]
            else if sel = ''.description'' then [el + 2]
            else if sel = ''.price'' then [el + 3]
            else if sel = ''.ratings .ws-icon-star'' then (if el = 10 then [14, 15, 16] else [])
            else if sel = ''.ratings > p.float-end'' then [el + 7]
            else []),
      get_attribute = (\<lambda>b el name.
        if name = ''title'' \<and> el = 11 then Some ''Widget''
        else if name = ''title'' \<and> el = 21 then Some ''Gadget'' else None),
      el_text = (\<lambda>b el.
        if el = 12 then ''A widget.'' else if el = 13 then ''$19.99''
        else if el = 17 then ''12 reviews'' else if el = 22 then ''A gadget.''
        else if el = 23 then price2 else if el = 27 then reviews2 else []),
      value_of_css_property = (\<lambda>b el name. if name = ''display'' then ''block'' else []),
      script_click = (\<lambda>b el. if el = 1 then b + 1 else 0),
      el_click = (\<lambda>b el. b),
      get_url = (\<lambda>b url. 0)\<rparr>"

text \<open>The menu with the links of all six categories, and the menu with the first two only.\<close>

definition menu6 :: "string list" where
  "menu6 = map entryLocator CATEGORY_SPECS"

definition menu2 :: "string list" where
  "menu2 = map entryLocator (take 2 CATEGORY_SPECS)"

definition world0 :: "(nat, nat) world" where
  "world0 = \<lparr>browser = 0, files = Map.empty, writable = (\<lambda>name. name \<noteq> []), log = [], clicks = []\<rparr>"

definition widget :: Product where
  "widget = \<lparr>title = Some ''Widget'', description = ''A widget.'', price = Finite 19.99,
     rating = 3, num_of_reviews = 12\<rparr>"

definition gadget :: "pyfloat \<Rightarrow> int \<Rightarrow> Product" where
  "gadget p n = \<lparr>title = Some ''Gadget'', description = ''A gadget.'', price = p,
     rating = 0, num_of_reviews = n\<rparr>"

section \<open>Facts about the string functions\<close>

lemma split_from_Nil_iff: "split_from tok s = [] \<longleftrightarrow> tok = [] \<and> (\<forall>c\<in>set s. is_space c)"
  by (induction s arbitrary: tok) auto

lemma split_from_first:
  "split_from tok s = t # ts \<Longrightarrow>
     t = tok @ takeWhile (\<lambda>c. \<not> is_space c) (if tok = [] then dropWhile is_space s else s)"
proof (induction s arbitrary: tok)
  case Nil
  then show ?case by (simp split: if_splits)
next
  case (Cons c cs)
  show ?case
  proof (cases "is_space c")
    case True
    show ?thesis
    proof (cases "tok = []")
      case True
      with \<open>is_space c\<close> Cons.prems have "split_from [] cs = t # ts" by simp
      from Cons.IH [OF this] True \<open>is_space c\<close> show ?thesis by simp
    next
      case False
      with \<open>is_space c\<close> Cons.prems show ?thesis by simp
    qed
  next
    case False
    with Cons.prems have "split_from (tok @ [c]) cs = t # ts" by simp
    from Cons.IH [OF this] False show ?thesis by simp
  qed
qed

lemma py_split_Nil_iff: "py_split s = [] \<longleftrightarrow> (\<forall>c\<in>set s. is_space c)"
  by (simp add: py_split_def split_from_Nil_iff)

lemma py_split_first:
  "py_split s = t # ts \<Longrightarrow> t = takeWhile (\<lambda>c. \<not> is_space c) (dropWhile is_space s)"
  by (drule split_from_first [of "[]", unfolded py_split_def [symmetric]]) simp

lemmas py_defs = py_float_def number_text_def take_sign_def is_space_def is_c_space_def to_lower_def
  parse_number_def
  digitpart_def is_digit_def is_exp_mark_def parse_exponent_def decimal_value_def digits_value_def
  digit_val_def py_split_def py_int_def py_replace_def Let_def

section \<open>Facts about the small shop\<close>

lemma shop_simps [simp]:
  "find_elements (shop p r m) b (Some el) ''.title'' = [el + 1]"
  "find_elements (shop p r m) b (Some el) ''.description'' = [el + 2]"
  "find_elements (shop p r m) b (Some el) ''.price'' = [el + 3]"
  "find_elements (shop p r m) b (Some el) ''.ratings > p.float-end'' = [el + 7]"
  "find_elements (shop p r m) b (Some el) ''.ratings .ws-icon-star'' =
     (if el = 10 then [14, 15, 16] else [])"
  "find_elements (shop p r m) b None ''.thumbnail'' = [10, 20]"
  "find_elements (shop p r m) b None ''.col-lg-9 > a'' = (if b < 2 then [1] else [])"
  "get_attribute (shop p r m) b el name =
     (if name = ''title'' \<and> el = 11 then Some ''Widget''
      else if name = ''title'' \<and> el = 21 then Some ''Gadget'' else None)"
  "el_text (shop p r m) b el =
     (if el = 12 then ''A widget.'' else if el = 13 then ''$19.99''
      else if el = 17 then ''12 reviews'' else if el = 22 then ''A gadget.''
      else if el = 23 then p else if el = 27 then r else [])"
  "value_of_css_property (shop p r m) b el name = (if name = ''display'' then ''block'' else [])"
  "script_click (shop p r m) b el = (if el = 1 then b + 1 else 0)"
  "el_click (shop p r m) b el = b"
  "get_url (shop p r m) b url = 0"
  by (simp_all add: shop_def)

lemmas field_defs = parse_single_product_def title_field_def description_field_def price_field_def
  rating_field_def num_of_reviews_field_def find_element_def

lemma parse_widget: "parse_single_product (shop p r m) b 10 = Inr widget"
  by (simp add: field_defs widget_def py_defs)

lemma parse_gadget_bad_price:
  "parse_single_product (shop ''$abc'' ''3 reviews'' m) b 20 = Inl ValueError"
  by (simp add: field_defs py_defs)

lemma parse_gadget:
  "parse_single_product (shop ''$5'' ''3 reviews'' m) b 20 = Inr (gadget (Finite 5) 3)"
  by (simp add: field_defs py_defs gadget_def)

section \<open>Facts about the list comprehension\<close>

lemma comprehension_fails: "x \<in> set xs \<Longrightarrow> isl (f x) \<Longrightarrow> isl (comprehension f xs)"
  by (induction xs) (auto split: sum.splits)

lemma comprehension_Inr_iff: "comprehension f xs = Inr ps \<longleftrightarrow> map f xs = map Inr ps"
proof (induction xs arbitrary: ps)
  case Nil
  then show ?case by auto
next
  case (Cons x xs)
  show ?case
    by (cases ps; cases "f x") (simp_all add: Cons.IH [symmetric] split: sum.splits)
qed

lemma comprehension_all:
  "\<forall>x\<in>set xs. \<not> isl (f x) \<Longrightarrow> comprehension f xs = Inr (map (\<lambda>x. projr (f x)) xs)"
  by (induction xs) (auto split: sum.splits)

lemma comprehension_first_failure:
  "\<forall>y\<in>set pre. \<not> isl (f y) \<Longrightarrow> f x = Inl e \<Longrightarrow> comprehension f (pre @ x # post) = Inl e"
  by (induction pre) (auto split: sum.splits)

section \<open>Extraction of one product: the claims\<close>

text \<open>
  C4. An item whose title attribute is "Widget", whose description text is
  "A widget.", whose price text is "$19.99", with three star markers and the reviews
  text "12 reviews", is extracted as the product with exactly these values: the title
  Widget, the description, the price 19.99, the rating 3 and 12 reviews.
\<close>

theorem parse_single_product_widget:
  assumes "find_element drv b (Some item) ''.title'' = Inr t"
    and "get_attribute drv b t ''title'' = Some ''Widget''"
    and "find_element drv b (Some item) ''.description'' = Inr d"
    and "el_text drv b d = ''A widget.''"
    and "find_element drv b (Some item) ''.price'' = Inr p"
    and "el_text drv b p = ''$19.99''"
    and "length (find_elements drv b (Some item) ''.ratings .ws-icon-star'') = 3"
    and "find_element drv b (Some item) ''.ratings > p.float-end'' = Inr r"
    and "el_text drv b r = ''12 reviews''"
  shows "parse_single_product drv b item =
     Inr \<lparr>title = Some ''Widget'', description = ''A widget.'', price = Finite 19.99,
          rating = 3, num_of_reviews = 12\<rparr>"
proof -
  have "price_field drv b item = Inr (Finite 19.99)"
    using assms(5,6) by (simp add: price_field_def py_defs)
  moreover have "num_of_reviews_field drv b item = Inr 12"
    using assms(8,9) by (simp add: num_of_reviews_field_def py_defs)
  moreover have "title_field drv b item = Inr (Some ''Widget'')"
    using assms(1,2) by (simp add: title_field_def)
  moreover have "description_field drv b item = Inr ''A widget.''"
    using assms(3,4) by (simp add: description_field_def)
  moreover have "rating_field drv b item = Inr 3"
    using assms(7) by (simp add: rating_field_def)
  ultimately show ?thesis
    by (simp add: parse_single_product_def)
qed

theorem parse_single_product_widget_witness:
  "find_element (shop ''$5'' ''3 reviews'' []) 0 (Some 10) ''.title'' = Inr 11
   \<and> get_attribute (shop ''$5'' ''3 reviews'' []) 0 11 ''title'' = Some ''Widget''
   \<and> el_text (shop ''$5'' ''3 reviews'' []) 0 13 = ''$19.99''
   \<and> el_text (shop ''$5'' ''3 reviews'' []) 0 17 = ''12 reviews''
   \<and> parse_single_product (shop ''$5'' ''3 reviews'' []) 0 10 =
       Inr \<lparr>title = Some ''Widget'', description = ''A widget.'', price = Finite 19.99,
            rating = 3, num_of_reviews = 12\<rparr>"
  using parse_single_product_widget [of "shop ''$5'' ''3 reviews'' []" 0 10 11 12 13 17]
  by (simp add: find_element_def)

text \<open>
  C10. The number of reviews is the integer read from the first whitespace-separated
  token of the reviews text, whitespace being what \<open>str.split\<close> takes for it (the
  no-break space is one). A text that is empty or all whitespace has no token: the
  indexing raises \<open>IndexError\<close> and the extraction of the item fails with it. A text
  with a token is read as the integer of its first token, the run of characters up to
  the next whitespace, and a token that is no integer raises \<open>ValueError\<close>, a
  different error.
\<close>

theorem num_of_reviews_field_first_token:
  assumes "find_element drv b (Some item) ''.ratings > p.float-end'' = Inr el"
  shows "((\<forall>c\<in>set (el_text drv b el). is_space c)
            \<longrightarrow> num_of_reviews_field drv b item = Inl IndexError
              \<and> isl (parse_single_product drv b item)
              \<and> (\<not> isl (title_field drv b item) \<and> \<not> isl (description_field drv b item)
                    \<and> \<not> isl (price_field drv b item)
                  \<longrightarrow> parse_single_product drv b item = Inl IndexError))
       \<and> (\<not> (\<forall>c\<in>set (el_text drv b el). is_space c)
            \<longrightarrow> num_of_reviews_field drv b item =
                 (case py_int (takeWhile (\<lambda>c. \<not> is_space c) (dropWhile is_space (el_text drv b el))) of
                    None \<Rightarrow> Inl ValueError
                  | Some n \<Rightarrow> Inr n))
       \<and> IndexError \<noteq> ValueError"
proof (intro conjI impI)
  assume "\<forall>c\<in>set (el_text drv b el). is_space c"
  then have "py_split (el_text drv b el) = []"
    by (simp add: py_split_Nil_iff)
  with assms show e: "num_of_reviews_field drv b item = Inl IndexError"
    by (simp add: num_of_reviews_field_def)
  then show "isl (parse_single_product drv b item)"
    by (auto simp: parse_single_product_def split: sum.splits)
  assume "\<not> isl (title_field drv b item) \<and> \<not> isl (description_field drv b item)
                    \<and> \<not> isl (price_field drv b item)"
  with e show "parse_single_product drv b item = Inl IndexError"
    by (auto simp: parse_single_product_def rating_field_def split: sum.splits)
next
  assume "\<not> (\<forall>c\<in>set (el_text drv b el). is_space c)"
  then obtain t ts where s: "py_split (el_text drv b el) = t # ts"
    by (cases "py_split (el_text drv b el)") (auto simp: py_split_Nil_iff)
  from py_split_first [OF s] s assms
  show "num_of_reviews_field drv b item =
                 (case py_int (takeWhile (\<lambda>c. \<not> is_space c) (dropWhile is_space (el_text drv b el))) of
                    None \<Rightarrow> Inl ValueError
                  | Some n \<Rightarrow> Inr n)"
    by (simp add: num_of_reviews_field_def)
next
  show "IndexError \<noteq> ValueError" by simp
qed

theorem num_of_reviews_field_first_token_witness:
  "find_element (shop ''$5'' '' '' []) 0 (Some 20) ''.ratings > p.float-end'' = Inr 27
   \<and> el_text (shop ''$5'' '' '' []) 0 27 = '' ''
   \<and> num_of_reviews_field (shop ''$5'' '' '' []) 0 20 = Inl IndexError
   \<and> parse_single_product (shop ''$5'' '' '' []) 0 20 = Inl IndexError
   \<and> el_text (shop ''$5'' ''many reviews'' []) 0 27 = ''many reviews''
   \<and> num_of_reviews_field (shop ''$5'' ''many reviews'' []) 0 20 = Inl ValueError
   \<and> num_of_reviews_field (shop ''$5'' ''12 reviews'' []) 0 20 = Inr 12
   \<and> num_of_reviews_field (shop ''$5'' [CHR 0xA0] []) 0 20 = Inl IndexError
   \<and> num_of_reviews_field (shop ''$5'' (''5'' @ [CHR 0xA0] @ ''reviews'') []) 0 20 = Inr 5"
proof -
  let ?s = "shop ''$5'' '' '' []"
  let ?v = "shop ''$5'' [CHR 0xA0] []"
  let ?x = "shop ''$5'' (''5'' @ [CHR 0xA0] @ ''reviews'') []"
  have v: "find_element ?v 0 (Some 20) ''.ratings > p.float-end'' = Inr 27"
    and x: "find_element ?x 0 (Some 20) ''.ratings > p.float-end'' = Inr 27"
    by (simp_all add: find_element_def)
  have "\<forall>c\<in>set (el_text ?v 0 27). is_space c"
    by (simp add: is_space_def)
  with num_of_reviews_field_first_token [OF v]
  have g: "num_of_reviews_field ?v 0 20 = Inl IndexError"
    by blast
  have "\<not> (\<forall>c\<in>set (el_text ?x 0 27). is_space c)"
    by (simp add: is_space_def)
  with num_of_reviews_field_first_token [OF x]
  have "num_of_reviews_field ?x 0 20 =
      (case py_int (takeWhile (\<lambda>c. \<not> is_space c) (dropWhile is_space (el_text ?x 0 27))) of
         None \<Rightarrow> Inl ValueError | Some n \<Rightarrow> Inr n)"
    by blast
  then have h: "num_of_reviews_field ?x 0 20 = Inr 5"
    by (simp add: py_defs)
  let ?t = "shop ''$5'' ''many reviews'' []"
  let ?u = "shop ''$5'' ''12 reviews'' []"
  have a: "find_element ?s 0 (Some 20) ''.ratings > p.float-end'' = Inr 27"
    and b: "find_element ?t 0 (Some 20) ''.ratings > p.float-end'' = Inr 27"
    and c: "find_element ?u 0 (Some 20) ''.ratings > p.float-end'' = Inr 27"
    by (simp_all add: find_element_def)
  have sp: "\<forall>c\<in>set (el_text ?s 0 27). is_space c"
    by (simp add: is_space_def)
  have ok: "\<not> isl (title_field ?s 0 20) \<and> \<not> isl (description_field ?s 0 20)
      \<and> \<not> isl (price_field ?s 0 20)"
    by (simp add: field_defs py_defs)
  from num_of_reviews_field_first_token [OF a] sp ok
  have d: "num_of_reviews_field ?s 0 20 = Inl IndexError
      \<and> parse_single_product ?s 0 20 = Inl IndexError"
    by blast
  have "\<not> (\<forall>c\<in>set (el_text ?t 0 27). is_space c)"
    by (simp add: is_space_def)
  with num_of_reviews_field_first_token [OF b]
  have "num_of_reviews_field ?t 0 20 =
      (case py_int (takeWhile (\<lambda>c. \<not> is_space c) (dropWhile is_space (el_text ?t 0 27))) of
         None \<Rightarrow> Inl ValueError | Some n \<Rightarrow> Inr n)"
    by blast
  then have e: "num_of_reviews_field ?t 0 20 = Inl ValueError"
    by (simp add: py_defs)
  have "\<not> (\<forall>c\<in>set (el_text ?u 0 27). is_space c)"
    by (simp add: is_space_def)
  with num_of_reviews_field_first_token [OF c]
  have "num_of_reviews_field ?u 0 20 =
      (case py_int (takeWhile (\<lambda>c. \<not> is_space c) (dropWhile is_space (el_text ?u 0 27))) of
         None \<Rightarrow> Inl ValueError | Some n \<Rightarrow> Inr n)"
    by blast
  then have f: "num_of_reviews_field ?u 0 20 = Inr 12"
    by (simp add: py_defs)
  from a d e f g h show ?thesis by simp
qed

section \<open>The products of one page: the claims\<close>

text \<open>
  C1, as amended. The page products are all or nothing. When the extraction of every
  item of the page succeeds, \<open>get_single_page_products\<close> returns the products of all
  the items, one for each item and in page order. When an item fails, nothing is
  skipped: the error of the first failing item leaves the function, and no product
  list is returned at all. No value is ever put in the place of a field that failed.
\<close>

theorem get_single_page_products_all_or_abort:
  "((\<forall>el\<in>set (find_elements drv b None ''.thumbnail''). \<not> isl (parse_single_product drv b el))
      \<longrightarrow> get_single_page_products drv b = Inr (spec_harvest drv b)
        \<and> spec_harvest drv b =
            map (\<lambda>el. projr (parse_single_product drv b el)) (find_elements drv b None ''.thumbnail'')
        \<and> length (spec_harvest drv b) = length (find_elements drv b None ''.thumbnail''))
   \<and> (\<forall>pre el post e.
         find_elements drv b None ''.thumbnail'' = pre @ el # post
         \<and> (\<forall>x\<in>set pre. \<not> isl (parse_single_product drv b x))
         \<and> parse_single_product drv b el = Inl e
       \<longrightarrow> get_single_page_products drv b = Inl e)"
proof (intro conjI allI impI)
  let ?els = "find_elements drv b None ''.thumbnail''"
  assume ok: "\<forall>el\<in>set ?els. \<not> isl (parse_single_product drv b el)"
  have "concat (map (\<lambda>el. case parse_single_product drv b el of Inl e \<Rightarrow> [] | Inr p \<Rightarrow> [p]) xs)
      = map (\<lambda>el. projr (parse_single_product drv b el)) xs"
    if "\<forall>el\<in>set xs. \<not> isl (parse_single_product drv b el)" for xs
    using that by (induction xs) (auto split: sum.splits)
  from this [OF ok]
  show h: "spec_harvest drv b = map (\<lambda>el. projr (parse_single_product drv b el)) ?els"
    by (simp add: spec_harvest_def)
  then show "length (spec_harvest drv b) = length ?els"
    by simp
  from ok h show "get_single_page_products drv b = Inr (spec_harvest drv b)"
    by (simp add: get_single_page_products_def comprehension_all)
next
  fix pre el post e
  assume "find_elements drv b None ''.thumbnail'' = pre @ el # post
         \<and> (\<forall>x\<in>set pre. \<not> isl (parse_single_product drv b x))
         \<and> parse_single_product drv b el = Inl e"
  then show "get_single_page_products drv b = Inl e"
    by (simp add: get_single_page_products_def comprehension_first_failure)
qed

theorem get_single_page_products_all_or_abort_witness:
  "get_single_page_products (shop ''$5'' ''3 reviews'' []) 0 = Inr [widget, gadget (Finite 5) 3]
   \<and> spec_harvest (shop ''$5'' ''3 reviews'' []) 0 = [widget, gadget (Finite 5) 3]
   \<and> find_elements (shop ''$abc'' ''3 reviews'' []) 0 None ''.thumbnail'' = [10] @ 20 # []
   \<and> parse_single_product (shop ''$abc'' ''3 reviews'' []) 0 10 = Inr widget
   \<and> parse_single_product (shop ''$abc'' ''3 reviews'' []) 0 20 = Inl ValueError
   \<and> get_single_page_products (shop ''$abc'' ''3 reviews'' []) 0 = Inl ValueError"
proof -
  let ?s = "shop ''$5'' ''3 reviews'' []"
  let ?t = "shop ''$abc'' ''3 reviews'' []"
  have ok: "\<forall>el\<in>set (find_elements ?s 0 None ''.thumbnail''). \<not> isl (parse_single_product ?s 0 el)"
    by (simp add: parse_widget parse_gadget)
  with get_single_page_products_all_or_abort [of ?s 0]
  have "get_single_page_products ?s 0 = Inr (spec_harvest ?s 0)
      \<and> spec_harvest ?s 0 =
          map (\<lambda>el. projr (parse_single_product ?s 0 el)) (find_elements ?s 0 None ''.thumbnail'')"
    by blast
  then have a: "get_single_page_products ?s 0 = Inr [widget, gadget (Finite 5) 3]
      \<and> spec_harvest ?s 0 = [widget, gadget (Finite 5) 3]"
    by (simp add: parse_widget parse_gadget)
  have b: "find_elements ?t 0 None ''.thumbnail'' = [10] @ 20 # []
         \<and> (\<forall>x\<in>set [10]. \<not> isl (parse_single_product ?t 0 x))
         \<and> parse_single_product ?t 0 20 = Inl ValueError"
    by (simp add: parse_widget parse_gadget_bad_price)
  with get_single_page_products_all_or_abort [of ?t 0]
  have c: "get_single_page_products ?t 0 = Inl ValueError"
    by blast
  from a b c show ?thesis
    by (simp add: parse_widget)
qed

text \<open>
  C1 as stated fails. On a page of two items of which the second has the price text
  "$abc", the claim promises the one product that extracts; the function raises
  \<open>ValueError\<close> and returns no product.
\<close>

theorem get_single_page_products_skip_counterexample:
  "length (find_elements (shop ''$abc'' ''3 reviews'' []) 0 None ''.thumbnail'') = 2
   \<and> spec_harvest (shop ''$abc'' ''3 reviews'' []) 0 = [widget]
   \<and> get_single_page_products (shop ''$abc'' ''3 reviews'' []) 0 = Inl ValueError
   \<and> get_single_page_products (shop ''$abc'' ''3 reviews'' []) 0
       \<noteq> Inr (spec_harvest (shop ''$abc'' ''3 reviews'' []) 0)"
  by (simp add: spec_harvest_def get_single_page_products_def parse_widget parse_gadget_bad_price)

section \<open>Writing a category: the claims\<close>

text \<open>
  C2, as amended. To a destination that can be opened, \<open>write_products_to_csv\<close>
  writes first the header row \<open>title, description, price, rating, num_of_reviews\<close>,
  the names of the dataclass fields in their order, then one row for each product, in
  the order of the sequence it was given; the other files are as they were.
\<close>

theorem write_products_to_csv_rows:
  assumes "writable w filename"
  shows "\<exists>rows.
     write_products_to_csv products filename w = (Inr (), w\<lparr>files := (files w)(filename \<mapsto> rows)\<rparr>)
     \<and> length rows = Suc (length products)
     \<and> rows ! 0 = [CStr ''title'', CStr ''description'', CStr ''price'', CStr ''rating'',
                   CStr ''num_of_reviews'']
     \<and> (\<forall>i<length products. rows ! Suc i = astuple (products ! i))"
  using assms
  by (intro exI [of _ "map CStr PRODUCT_FIELDS # map astuple products"])
     (simp add: write_products_to_csv_def PRODUCT_FIELDS_def)

theorem write_products_to_csv_rows_witness:
  "writable world0 ''home.csv''
   \<and> fst (write_products_to_csv [widget, gadget (Finite 5) 3] ''home.csv'' world0) = Inr ()
   \<and> length (the (files (snd (write_products_to_csv [widget, gadget (Finite 5) 3] ''home.csv'' world0))
        ''home.csv'')) = 3"
proof -
  have a: "writable world0 ''home.csv''"
    by (simp add: world0_def)
  from write_products_to_csv_rows [OF a, of "[widget, gadget (Finite 5) 3]"]
  obtain rows where
    "write_products_to_csv [widget, gadget (Finite 5) 3] ''home.csv'' world0
       = (Inr (), world0\<lparr>files := (files world0)(''home.csv'' \<mapsto> rows)\<rparr>)"
    and "length rows = Suc (length [widget, gadget (Finite 5) 3])"
    by blast
  with a show ?thesis by simp
qed

text \<open>
  C2 as stated fails: the fifth name of the header row that is written is
  \<open>num_of_reviews\<close>, the name of the field in the dataclass, not \<open>numOfReviews\<close>.
\<close>

theorem write_products_to_csv_header_counterexample:
  "files (snd (write_products_to_csv [widget] ''home.csv'' world0)) ''home.csv''
     = Some [[CStr ''title'', CStr ''description'', CStr ''price'', CStr ''rating'',
              CStr ''num_of_reviews''], astuple widget]
   \<and> hd (the (files (snd (write_products_to_csv [widget] ''home.csv'' world0)) ''home.csv''))
     \<noteq> [CStr ''title'', CStr ''description'', CStr ''price'', CStr ''rating'',
         CStr ''numOfReviews'']"
  by (simp add: write_products_to_csv_def world0_def PRODUCT_FIELDS_def)

section \<open>Facts about lookups and the pagination loop\<close>

lemma find_element_error: "find_element drv b ctx sel = Inl e \<Longrightarrow> e = NoSuchElementException"
  by (auto simp: find_element_def split: list.splits)

lemma find_element_absent:
  "find_elements drv b ctx sel = [] \<Longrightarrow> find_element drv b ctx sel = Inl NoSuchElementException"
  by (simp add: find_element_def)

lemma more_button_loop_stop:
  assumes "\<not> more_visible drv sel (browser w)"
  shows "more_button_loop drv sel w = Some (Inr (), logging_info LAST_PAGE_MESSAGE w)"
proof (cases "find_element drv (browser w) None sel")
  case (Inl e)
  then have "e = NoSuchElementException" by (rule find_element_error)
  with Inl show ?thesis
    by (subst more_button_loop.simps) simp
next
  case (Inr el)
  with assms show ?thesis
    by (subst more_button_loop.simps) (simp add: more_visible_def)
qed

lemma more_button_loop_step:
  assumes "more_visible drv sel (browser w)"
  shows "more_button_loop drv sel w = more_button_loop drv sel (click_more drv sel w)"
proof (cases "find_element drv (browser w) None sel")
  case (Inl e)
  with assms show ?thesis by (simp add: more_visible_def)
next
  case (Inr el)
  with assms show ?thesis
    by (subst more_button_loop.simps) (simp add: more_visible_def click_more_def)
qed

lemma browser_click_more: "browser (click_more drv sel w) = next_page drv sel (browser w)"
  by (simp add: click_more_def next_page_def execute_script_click_def logging_info_def
      split: sum.splits)

lemma clicks_click_more:
  "more_visible drv sel (browser w) \<Longrightarrow> length (clicks (click_more drv sel w)) = Suc (length (clicks w))"
  by (simp add: click_more_def more_visible_def execute_script_click_def logging_info_def
      split: sum.splits)

lemma files_click_more: "files (click_more drv sel w) = files w"
  and writable_click_more: "writable (click_more drv sel w) = writable w"
  by (simp_all add: click_more_def execute_script_click_def logging_info_def split: sum.splits)

lemma browser_funpow_click_more:
  "browser ((click_more drv sel ^^ k) w) = (next_page drv sel ^^ k) (browser w)"
  by (induction k) (simp_all add: browser_click_more)

lemma files_funpow_click_more: "files ((click_more drv sel ^^ k) w) = files w"
  and writable_funpow_click_more: "writable ((click_more drv sel ^^ k) w) = writable w"
  by (induction k) (simp_all add: files_click_more writable_click_more)

text \<open>
  The loop ends at the first state where the button is not to be clicked: when one
  is reached within \<open>n\<close> clicks, the loop returns after some \<open>k \<le> n\<close> clicks.
\<close>

lemma more_button_loop_ends:
  assumes "\<not> more_visible drv sel ((next_page drv sel ^^ n) (browser w))"
  shows "\<exists>k\<le>n. more_button_loop drv sel w
            = Some (Inr (), logging_info LAST_PAGE_MESSAGE ((click_more drv sel ^^ k) w))
          \<and> length (clicks ((click_more drv sel ^^ k) w)) = length (clicks w) + k
          \<and> \<not> more_visible drv sel (browser ((click_more drv sel ^^ k) w))"
  using assms
proof (induction n arbitrary: w)
  case 0
  then have "more_button_loop drv sel w = Some (Inr (), logging_info LAST_PAGE_MESSAGE w)"
    by (simp add: more_button_loop_stop)
  with 0 show ?case by simp
next
  case (Suc n)
  show ?case
  proof (cases "more_visible drv sel (browser w)")
    case False
    then have "more_button_loop drv sel w = Some (Inr (), logging_info LAST_PAGE_MESSAGE w)"
      by (rule more_button_loop_stop)
    with False show ?thesis
      by (intro exI [of _ 0]) simp
  next
    case True
    from Suc.prems
    have "\<not> more_visible drv sel ((next_page drv sel ^^ n) (browser (click_more drv sel w)))"
      by (simp add: funpow_swap1 browser_click_more)
    from Suc.IH [OF this] obtain k where k: "k \<le> n"
      "more_button_loop drv sel (click_more drv sel w)
         = Some (Inr (), logging_info LAST_PAGE_MESSAGE ((click_more drv sel ^^ k) (click_more drv sel w)))"
      "length (clicks ((click_more drv sel ^^ k) (click_more drv sel w)))
         = length (clicks (click_more drv sel w)) + k"
      "\<not> more_visible drv sel (browser ((click_more drv sel ^^ k) (click_more drv sel w)))"
      by blast
    with True show ?thesis
      by (intro exI [of _ "Suc k"])
         (simp add: funpow_swap1 more_button_loop_step clicks_click_more)
  qed
qed

section \<open>The pagination loop: the claims\<close>

text \<open>
  C6. When the pagination button is found and displayed at the first two iterations
  and is absent at the third, the loop dispatches two clicks, on the two buttons it
  found, logs its last-page message and returns.
\<close>

theorem more_button_loop_two_clicks:
  assumes "find_element drv (browser w) None sel = Inr e0"
    and "value_of_css_property drv (browser w) e0 ''display'' \<noteq> ''none''"
    and "find_element drv (script_click drv (browser w) e0) None sel = Inr e1"
    and "value_of_css_property drv (script_click drv (browser w) e0) e1 ''display'' \<noteq> ''none''"
    and "find_elements drv (script_click drv (script_click drv (browser w) e0) e1) None sel = []"
  shows "more_button_loop drv sel w =
     Some (Inr (),
       w\<lparr>browser := script_click drv (script_click drv (browser w) e0) e1,
         log := log w @ [''More button found, attempting to click.'',
                         ''More button found, attempting to click.'', LAST_PAGE_MESSAGE],
         clicks := clicks w @ [e0, e1]\<rparr>)"
proof -
  let ?w1 = "click_more drv sel w"
  let ?w2 = "click_more drv sel ?w1"
  have v0: "more_visible drv sel (browser w)"
    using assms(1,2) by (simp add: more_visible_def)
  have b1: "browser ?w1 = script_click drv (browser w) e0"
    using assms(1) by (simp add: browser_click_more next_page_def)
  have v1: "more_visible drv sel (browser ?w1)"
    using assms(3,4) by (simp add: b1 more_visible_def)
  have b2: "browser ?w2 = script_click drv (script_click drv (browser w) e0) e1"
    using assms(3) by (simp add: browser_click_more [of drv sel ?w1] b1 next_page_def)
  have v2: "\<not> more_visible drv sel (browser ?w2)"
    using assms(5) by (simp add: b2 more_visible_def find_element_absent)
  have "more_button_loop drv sel w = Some (Inr (), logging_info LAST_PAGE_MESSAGE ?w2)"
    using v0 v1 v2 by (simp add: more_button_loop_step more_button_loop_stop)
  moreover have "logging_info LAST_PAGE_MESSAGE ?w2 =
       w\<lparr>browser := script_click drv (script_click drv (browser w) e0) e1,
         log := log w @ [''More button found, attempting to click.'',
                         ''More button found, attempting to click.'', LAST_PAGE_MESSAGE],
         clicks := clicks w @ [e0, e1]\<rparr>"
    using assms(1,3)
    by (simp add: click_more_def execute_script_click_def logging_info_def)
  ultimately show ?thesis by simp
qed

theorem more_button_loop_two_clicks_witness:
  "find_element (shop ''$5'' ''3 reviews'' []) (browser world0) None ''.col-lg-9 > a'' = Inr 1
   \<and> find_elements (shop ''$5'' ''3 reviews'' []) 2 None ''.col-lg-9 > a'' = []
   \<and> more_button_loop (shop ''$5'' ''3 reviews'' []) ''.col-lg-9 > a'' world0 =
       Some (Inr (),
         world0\<lparr>browser := 2,
           log := [''More button found, attempting to click.'',
                   ''More button found, attempting to click.'', LAST_PAGE_MESSAGE],
           clicks := [1, 1]\<rparr>)"
  using more_button_loop_two_clicks [of "shop ''$5'' ''3 reviews'' []" world0 "''.col-lg-9 > a''" 1 1]
  by (simp add: find_element_def world0_def)

text \<open>
  C7. Whenever the pagination button comes to be absent, or to have the display
  \<open>none\<close>, after some number \<open>n\<close> of clicks, the loop returns, after at most \<open>n\<close>
  iterations that click; and when the button is not found at the first lookup, the
  loop returns at once and no click is dispatched.
\<close>

theorem more_button_loop_terminates:
  "(\<not> more_visible drv sel ((next_page drv sel ^^ n) (browser w))
      \<longrightarrow> (\<exists>k w'. k \<le> n \<and> more_button_loop drv sel w = Some (Inr (), w')
              \<and> length (clicks w') = length (clicks w) + k
              \<and> browser w' = (next_page drv sel ^^ k) (browser w)
              \<and> \<not> more_visible drv sel (browser w')))
   \<and> (find_elements drv (browser w) None sel = []
      \<longrightarrow> more_button_loop drv sel w = Some (Inr (), w\<lparr>log := log w @ [LAST_PAGE_MESSAGE]\<rparr>))"
proof (intro conjI impI)
  assume "\<not> more_visible drv sel ((next_page drv sel ^^ n) (browser w))"
  from more_button_loop_ends [OF this] obtain k where k: "k \<le> n"
    "more_button_loop drv sel w
       = Some (Inr (), logging_info LAST_PAGE_MESSAGE ((click_more drv sel ^^ k) w))"
    "length (clicks ((click_more drv sel ^^ k) w)) = length (clicks w) + k"
    "\<not> more_visible drv sel (browser ((click_more drv sel ^^ k) w))"
    by blast
  let ?w' = "logging_info LAST_PAGE_MESSAGE ((click_more drv sel ^^ k) w)"
  have "clicks ?w' = clicks ((click_more drv sel ^^ k) w)"
    and "browser ?w' = browser ((click_more drv sel ^^ k) w)"
    by (simp_all add: logging_info_def)
  with k show "\<exists>k w'. k \<le> n \<and> more_button_loop drv sel w = Some (Inr (), w')
              \<and> length (clicks w') = length (clicks w) + k
              \<and> browser w' = (next_page drv sel ^^ k) (browser w)
              \<and> \<not> more_visible drv sel (browser w')"
    by (intro exI [of _ k] exI [of _ ?w']) (simp add: browser_funpow_click_more)
next
  assume "find_elements drv (browser w) None sel = []"
  then have "\<not> more_visible drv sel (browser w)"
    by (simp add: more_visible_def find_element_absent)
  then show "more_button_loop drv sel w = Some (Inr (), w\<lparr>log := log w @ [LAST_PAGE_MESSAGE]\<rparr>)"
    by (simp add: more_button_loop_stop logging_info_def)
qed

theorem more_button_loop_terminates_witness:
  "\<not> more_visible (shop ''$5'' ''3 reviews'' []) ''.col-lg-9 > a''
       ((next_page (shop ''$5'' ''3 reviews'' []) ''.col-lg-9 > a'' ^^ 2) (browser world0))
   \<and> (\<exists>k w'. k \<le> 2
         \<and> more_button_loop (shop ''$5'' ''3 reviews'' []) ''.col-lg-9 > a'' world0 = Some (Inr (), w')
         \<and> length (clicks w') = length (clicks world0) + k)
   \<and> find_elements (shop ''$5'' ''3 reviews'' []) (browser (world0\<lparr>browser := 2\<rparr>)) None
        ''.col-lg-9 > a'' = []
   \<and> more_button_loop (shop ''$5'' ''3 reviews'' []) ''.col-lg-9 > a'' (world0\<lparr>browser := 2\<rparr>)
        = Some (Inr (), world0\<lparr>browser := 2, log := [LAST_PAGE_MESSAGE]\<rparr>)"
proof -
  let ?s = "shop ''$5'' ''3 reviews'' []"
  let ?sel = "''.col-lg-9 > a''"
  have a: "\<not> more_visible ?s ?sel ((next_page ?s ?sel ^^ 2) (browser world0))"
    by (simp add: numeral_2_eq_2 more_visible_def next_page_def find_element_def world0_def)
  with more_button_loop_terminates [of ?s ?sel 2 world0]
  have b: "\<exists>k w'. k \<le> 2 \<and> more_button_loop ?s ?sel world0 = Some (Inr (), w')
         \<and> length (clicks w') = length (clicks world0) + k"
    by blast
  have c: "find_elements ?s (browser (world0\<lparr>browser := 2\<rparr>)) None ?sel = []"
    by simp
  with more_button_loop_terminates [of ?s ?sel 0 "world0\<lparr>browser := 2\<rparr>"]
  have d: "more_button_loop ?s ?sel (world0\<lparr>browser := 2\<rparr>)
        = Some (Inr (), world0\<lparr>browser := 2, log := [LAST_PAGE_MESSAGE]\<rparr>)"
    by (simp add: world0_def)
  from a b c d show ?thesis by blast
qed

section \<open>Facts about a category and about the run\<close>

lemma logging_info_sel [simp]:
  "browser (logging_info msg w) = browser w"
  "files (logging_info msg w) = files w"
  "writable (logging_info msg w) = writable w"
  "clicks (logging_info msg w) = clicks w"
  "log (logging_info msg w) = log w @ [msg]"
  by (simp_all add: logging_info_def)

lemma execute_script_click_sel [simp]:
  "browser (execute_script_click drv el w) = script_click drv (browser w) el"
  "files (execute_script_click drv el w) = files w"
  "writable (execute_script_click drv el w) = writable w"
  "clicks (execute_script_click drv el w) = clicks w @ [el]"
  "log (execute_script_click drv el w) = log w"
  by (simp_all add: execute_script_click_def)

lemma element_click_sel [simp]:
  "browser (element_click drv el w) = el_click drv (browser w) el"
  "files (element_click drv el w) = files w"
  "writable (element_click drv el w) = writable w"
  "clicks (element_click drv el w) = clicks w @ [el]"
  "log (element_click drv el w) = log w"
  by (simp_all add: element_click_def)

lemma driver_get_sel [simp]:
  "browser (driver_get drv url w) = get_url drv (browser w) url"
  "files (driver_get drv url w) = files w"
  "writable (driver_get drv url w) = writable w"
  "clicks (driver_get drv url w) = clicks w"
  "log (driver_get drv url w) = log w"
  by (simp_all add: driver_get_def)

text \<open>What the loop leaves as it found it, whenever it returns.\<close>

lemma more_button_loop_frame:
  assumes "more_button_loop drv sel w = Some (r, w')"
  shows "r = Inr () \<and> files w' = files w \<and> writable w' = writable w"
proof -
  have "fst y = Inr () \<and> files (snd y) = files w \<and> writable (snd y) = writable w"
    if "more_button_loop drv sel w = Some y" for y
    using that
  proof (induction rule: more_button_loop.raw_induct [rotated 1, consumes 1])
    case (1 loop drv sel w y)
    show ?case
    proof (cases "find_element drv (browser w) None sel")
      case (Inl e)
      then have "e = NoSuchElementException" by (rule find_element_error)
      with Inl 1(2) show ?thesis by (auto simp: logging_info_def)
    next
      case (Inr el)
      show ?thesis
      proof (cases "value_of_css_property drv (browser w) el ''display'' = ''none''")
        case True
        with Inr 1(2) show ?thesis by (auto simp: logging_info_def)
      next
        case False
        with Inr 1(2)
        have "loop drv sel (execute_script_click drv el
                 (logging_info ''More button found, attempting to click.'' w)) = Some y"
          by simp
        from 1(1) [OF this] show ?thesis
          by (simp add: execute_script_click_def logging_info_def)
      qed
    qed
  qed
  from this [OF assms] show ?thesis by simp
qed

lemma paginate_frame:
  assumes "paginate drv pag w = Some (r, w')"
  shows "r = Inr () \<and> files w' = files w \<and> writable w' = writable w"
  using assms
  by (auto simp: paginate_def split: option.splits if_splits dest: more_button_loop_frame)

text \<open>
  A category that returns has written its own file, with the products it returns, and
  no other file; a category that raises has written none.
\<close>

lemma scrape_products_frame:
  assumes "scrape_products drv sel fn pag w = Some (r, w')"
  shows "writable w' = writable w
     \<and> (case r of
          Inl e \<Rightarrow> files w' = files w
        | Inr products \<Rightarrow>
            files w' = (files w)(fn \<mapsto> map CStr PRODUCT_FIELDS # map astuple products)
            \<and> get_single_page_products drv (browser w') = Inr products)"
proof -
  let ?w1 = "logging_info (''Start parsing '' @ py_replace fn ''.csv'' '''' @ '' products'') w"
  have w1: "files ?w1 = files w" "writable ?w1 = writable w" "browser ?w1 = browser w"
    by simp_all
  show ?thesis
  proof (cases "find_element drv (browser w) None sel")
    case (Inl e)
    then have "scrape_products drv sel fn pag w = Some (Inl e, ?w1)"
      by (simp add: scrape_products_def Let_def)
    with assms have "r = Inl e" "w' = ?w1" by simp_all
    with w1 show ?thesis by simp
  next
    case (Inr link)
    let ?w2 = "execute_script_click drv link ?w1"
    have w2: "files ?w2 = files w" "writable ?w2 = writable w"
      by simp_all
    have "paginate drv pag ?w2 \<noteq> None"
    proof
      assume "paginate drv pag ?w2 = None"
      with Inr have "scrape_products drv sel fn pag w = None"
        by (simp add: scrape_products_def Let_def)
      with assms show False by simp
    qed
    then obtain u w3 where p: "paginate drv pag ?w2 = Some (u, w3)"
      by (cases "paginate drv pag ?w2") auto
    from paginate_frame [OF p] w2
    have w3: "u = Inr ()" "files w3 = files w" "writable w3 = writable w"
      by simp_all
    show ?thesis
    proof (cases "get_single_page_products drv (browser w3)")
      case (Inl e)
      with Inr p w3 have "scrape_products drv sel fn pag w = Some (Inl e, w3)"
        by (simp add: scrape_products_def Let_def)
      with assms have "r = Inl e" "w' = w3" by simp_all
      with w3 show ?thesis by simp
    next
      case h: (Inr products)
      show ?thesis
      proof (cases "writable w fn")
        case True
        let ?w4 = "w3\<lparr>files := (files w3)(fn \<mapsto> map CStr PRODUCT_FIELDS # map astuple products)\<rparr>"
        from True Inr p w3 h have "scrape_products drv sel fn pag w = Some (Inr products, ?w4)"
          by (simp add: scrape_products_def Let_def write_products_to_csv_def)
        with assms have "r = Inr products" "w' = ?w4" by simp_all
        with w3 h show ?thesis by simp
      next
        case False
        with Inr p w3 h have "scrape_products drv sel fn pag w = Some (Inl OSError, w3)"
          by (simp add: scrape_products_def Let_def write_products_to_csv_def)
        with assms have "r = Inl OSError" "w' = w3" by simp_all
        with w3 show ?thesis by simp
      qed
    qed
  qed
qed

lemma scrape_products_absent:
  assumes "find_elements drv (browser w) None sel = []"
  shows "scrape_products drv sel fn pag w =
     Some (Inl NoSuchElementException,
           logging_info (''Start parsing '' @ py_replace fn ''.csv'' '''' @ '' products'') w)"
proof -
  let ?w1 = "logging_info (''Start parsing '' @ py_replace fn ''.csv'' '''' @ '' products'') w"
  have "browser ?w1 = browser w" by simp
  with assms have "find_element drv (browser ?w1) None sel = Inl NoSuchElementException"
    by (simp add: find_element_absent)
  then show ?thesis
    by (simp add: scrape_products_def Let_def)
qed

lemma spec_run_append:
  "spec_run drv (xs @ ys) acc w =
     (case spec_run drv xs acc w of
        None \<Rightarrow> None
      | Some (Inl e, w') \<Rightarrow> Some (Inl e, w')
      | Some (Inr acc', w') \<Rightarrow> spec_run drv ys acc' w')"
  by (induction xs arbitrary: acc w) (auto split: option.splits sum.splits prod.splits)

lemma spec_run_files_other:
  assumes "spec_run drv cs acc w = Some (r, w')" and "f \<notin> outputName ` set cs"
  shows "files w' f = files w f"
  using assms
proof (induction cs arbitrary: acc w)
  case Nil
  then show ?case by simp
next
  case (Cons c cs)
  from Cons.prems(1) obtain r1 w1 where
    s: "scrape_products drv (entryLocator c) (outputName c) (paginationAffordanceLocator c) w = Some (r1, w1)"
    by (auto split: option.splits)
  from scrape_products_frame [OF s] Cons.prems(2)
  have f1: "files w1 f = files w f"
    by (cases r1) auto
  show ?case
  proof (cases r1)
    case (Inl e)
    with s Cons.prems(1) f1 show ?thesis by auto
  next
    case (Inr products)
    with s Cons.prems(1)
    have "spec_run drv cs (acc(outputName c \<mapsto> products)) w1 = Some (r, w')"
      by simp
    from Cons.IH [OF this] Cons.prems(2) f1 show ?thesis by simp
  qed
qed

lemma spec_run_acc_other:
  assumes "spec_run drv cs acc w = Some (Inr acc', w')" and "f \<notin> outputName ` set cs"
  shows "acc' f = acc f"
  using assms
proof (induction cs arbitrary: acc w)
  case Nil
  then show ?case by simp
next
  case (Cons c cs)
  from Cons.prems(1) obtain products w1 where
    "scrape_products drv (entryLocator c) (outputName c) (paginationAffordanceLocator c) w
       = Some (Inr products, w1)"
    and "spec_run drv cs (acc(outputName c \<mapsto> products)) w1 = Some (Inr acc', w')"
    by (auto split: option.splits sum.splits prod.splits)
  from Cons.IH [OF this(2)] Cons.prems(2) show ?case by simp
qed

lemma spec_run_written:
  assumes "spec_run drv cs acc w = Some (Inr acc', w')"
    and "distinct (map outputName cs)" and "c \<in> set cs"
  shows "\<exists>products. acc' (outputName c) = Some products
     \<and> files w' (outputName c) = Some (map CStr PRODUCT_FIELDS # map astuple products)"
  using assms
proof (induction cs arbitrary: acc w)
  case Nil
  then show ?case by simp
next
  case (Cons d cs)
  from Cons.prems(1) obtain products w1 where
    s: "scrape_products drv (entryLocator d) (outputName d) (paginationAffordanceLocator d) w
       = Some (Inr products, w1)"
    and r: "spec_run drv cs (acc(outputName d \<mapsto> products)) w1 = Some (Inr acc', w')"
    by (auto split: option.splits sum.splits prod.splits)
  show ?case
  proof (cases "c \<in> set cs")
    case True
    with Cons.IH [OF r] Cons.prems(2) show ?thesis by simp
  next
    case False
    with Cons.prems(3) have c: "c = d" by simp
    from Cons.prems(2) have n: "outputName d \<notin> outputName ` set cs" by simp
    from scrape_products_frame [OF s]
    have "files w1 (outputName d) = Some (map CStr PRODUCT_FIELDS # map astuple products)"
      by simp
    with spec_run_files_other [OF r n] spec_run_acc_other [OF r n] c
    show ?thesis by simp
  qed
qed

lemma accept_cookies_returns: "fst (accept_cookies drv w) = Inr ()"
  by (auto simp: accept_cookies_def split: sum.splits dest: find_element_error)

text \<open>The six calls of \<open>get_all_products\<close> are the loop over \<open>CATEGORY_SPECS\<close>, its result dropped.\<close>

lemma get_all_products_as_loop:
  "get_all_products drv w =
     (case spec_run drv CATEGORY_SPECS Map.empty (after_cookies drv w) of
        None \<Rightarrow> None
      | Some (Inl e, w') \<Rightarrow> Some (Inl e, w')
      | Some (Inr result, w') \<Rightarrow> Some (Inr (), w'))"
proof -
  obtain w0 where c: "accept_cookies drv (driver_get drv HOME_URL w) = (Inr (), w0)"
    using accept_cookies_returns [of drv "driver_get drv HOME_URL w"]
    by (cases "accept_cookies drv (driver_get drv HOME_URL w)") simp
  then have a: "after_cookies drv w = w0"
    by (simp add: after_cookies_def)
  show ?thesis
    unfolding a get_all_products_def c CATEGORY_SPECS_def
    by (simp add: and_then_def split: option.splits sum.splits prod.splits)
qed

section \<open>Runs in the small shop\<close>

lemma shop_link:
  "sel \<noteq> ''.thumbnail'' \<Longrightarrow> sel \<noteq> ''.col-lg-9 > a'' \<Longrightarrow>
     find_elements (shop p r m) b None sel = (if sel \<in> set m then [2] else [])"
  by (simp add: shop_def)

lemma shop_page_5:
  "get_single_page_products (shop ''$5'' ''3 reviews'' m) b = Inr [widget, gadget (Finite 5) 3]"
  by (simp add: get_single_page_products_def parse_widget parse_gadget)

lemma shop_page_6:
  "get_single_page_products (shop ''$6'' ''3 reviews'' m) b = Inr [widget, gadget (Finite 6) 3]"
  by (simp add: get_single_page_products_def parse_widget)
     (simp add: field_defs py_defs gadget_def)

lemma shop_paginate:
  assumes "pag = None \<or> pag = Some ''.col-lg-9 > a''" and "browser w = 0"
  shows "\<exists>w'. paginate (shop p r m) pag w = Some (Inr (), w')"
proof (cases pag)
  case None
  then show ?thesis by (simp add: paginate_def)
next
  case (Some sel)
  with assms have sel: "sel = ''.col-lg-9 > a''" by simp
  have "\<not> more_visible (shop p r m) sel ((next_page (shop p r m) sel ^^ 2) (browser w))"
    using assms(2) by (simp add: sel numeral_2_eq_2 more_visible_def next_page_def find_element_def)
  from more_button_loop_ends [OF this] Some sel show ?thesis
    by (auto simp: paginate_def)
qed

lemma shop_scrape:
  assumes "sel \<in> set m" and "sel \<noteq> ''.thumbnail''" and "sel \<noteq> ''.col-lg-9 > a''"
    and "pag = None \<or> pag = Some ''.col-lg-9 > a''"
    and "writable w fn"
    and "\<And>b. get_single_page_products (shop p r m) b = Inr ps"
  shows "\<exists>w'. scrape_products (shop p r m) sel fn pag w = Some (Inr ps, w')"
proof -
  let ?w1 = "logging_info (''Start parsing '' @ py_replace fn ''.csv'' '''' @ '' products'') w"
  let ?w2 = "execute_script_click (shop p r m) 2 ?w1"
  have l: "find_element (shop p r m) (browser ?w1) None sel = Inr 2"
    using assms(1-3) by (simp add: find_element_def shop_link)
  have "browser ?w2 = 0" by simp
  from shop_paginate [OF assms(4) this]
  obtain w3 where p: "paginate (shop p r m) pag ?w2 = Some (Inr (), w3)"
    by blast
  from paginate_frame [OF p] assms(5) have "writable w3 fn" by simp
  with l p assms(6) show ?thesis
    by (simp add: scrape_products_def Let_def write_products_to_csv_def)
qed

lemma shop_spec_run:
  assumes "\<forall>c\<in>set cs. entryLocator c \<in> set m \<and> entryLocator c \<noteq> ''.thumbnail''
       \<and> entryLocator c \<noteq> ''.col-lg-9 > a''
       \<and> (paginationAffordanceLocator c = None \<or> paginationAffordanceLocator c = Some ''.col-lg-9 > a'')
       \<and> writable w (outputName c)"
    and "\<And>b. get_single_page_products (shop p r m) b = Inr ps"
  shows "\<exists>acc' w'. spec_run (shop p r m) cs acc w = Some (Inr acc', w')
           \<and> (\<forall>c\<in>set cs. acc' (outputName c) = Some ps)"
  using assms(1)
proof (induction cs arbitrary: acc w)
  case Nil
  then show ?case by simp
next
  case (Cons c cs)
  from Cons.prems have c: "entryLocator c \<in> set m" "entryLocator c \<noteq> ''.thumbnail''"
    "entryLocator c \<noteq> ''.col-lg-9 > a''"
    "paginationAffordanceLocator c = None \<or> paginationAffordanceLocator c = Some ''.col-lg-9 > a''"
    "writable w (outputName c)"
    by simp_all
  from shop_scrape [OF c assms(2)]
  obtain w1 where s: "scrape_products (shop p r m) (entryLocator c) (outputName c)
      (paginationAffordanceLocator c) w = Some (Inr ps, w1)"
    by blast
  from scrape_products_frame [OF s] have "writable w1 = writable w" by simp
  with Cons.prems have "\<forall>c\<in>set cs. entryLocator c \<in> set m \<and> entryLocator c \<noteq> ''.thumbnail''
       \<and> entryLocator c \<noteq> ''.col-lg-9 > a''
       \<and> (paginationAffordanceLocator c = None \<or> paginationAffordanceLocator c = Some ''.col-lg-9 > a'')
       \<and> writable w1 (outputName c)"
    by simp
  from Cons.IH [OF this, of "acc(outputName c \<mapsto> ps)"]
  obtain acc' w' where
    r: "spec_run (shop p r m) cs (acc(outputName c \<mapsto> ps)) w1 = Some (Inr acc', w')"
    and a: "\<forall>d\<in>set cs. acc' (outputName d) = Some ps"
    by blast
  from r s have t: "spec_run (shop p r m) (c # cs) acc w = Some (Inr acc', w')"
    by simp
  have "acc' (outputName c) = Some ps"
  proof (cases "outputName c \<in> outputName ` set cs")
    case True
    with a show ?thesis by auto
  next
    case False
    from spec_run_acc_other [OF r False] show ?thesis by simp
  qed
  with a t show ?case by simp
qed

lemma shop_after_cookies:
  "''#cookieBanner > div.acceptContainer > button'' \<notin> set m \<Longrightarrow>
     after_cookies (shop p r m) world0 = world0\<lparr>log := [''Cookie accept button not found.'']\<rparr>"
  by (simp add: after_cookies_def accept_cookies_def find_element_def shop_link
      world0_def logging_info_def driver_get_def)

lemma shop_scrape_bad_price:
  "scrape_products (shop ''$abc'' ''3 reviews'' menu6) ''#side-menu a'' ''home.csv'' None world0
     = Some (Inl ValueError, world0\<lparr>log := [''Start parsing home products''], clicks := [2]\<rparr>)"
proof -
  let ?s = "shop ''$abc'' ''3 reviews'' menu6"
  have l: "find_element ?s b None ''#side-menu a'' = Inr 2" for b
    by (simp add: find_element_def shop_link menu6_def CATEGORY_SPECS_def)
  have p: "get_single_page_products ?s b = Inl ValueError" for b
    by (simp add: get_single_page_products_def parse_widget parse_gadget_bad_price)
  have n: "py_replace ''home.csv'' ''.csv'' '''' = ''home''"
    by (simp add: py_replace_def)
  show ?thesis
    by (simp add: scrape_products_def Let_def l p n paginate_def)
       (simp add: execute_script_click_def logging_info_def world0_def)
qed

lemma after_cookies_frame:
  "writable (after_cookies drv w) = writable w"
  "files (after_cookies drv w) = files w"
  by (simp_all add: after_cookies_def accept_cookies_def split: sum.splits)

lemma shop_run_menu6:
  assumes "\<And>b. get_single_page_products (shop p r menu6) b = Inr ps"
  shows "\<exists>result w'. spec_run (shop p r menu6) CATEGORY_SPECS Map.empty
           (after_cookies (shop p r menu6) world0) = Some (Inr result, w')
         \<and> (\<forall>c\<in>set CATEGORY_SPECS. result (outputName c) = Some ps)"
proof (rule shop_spec_run [OF _ assms])
  show "\<forall>c\<in>set CATEGORY_SPECS. entryLocator c \<in> set menu6 \<and> entryLocator c \<noteq> ''.thumbnail''
       \<and> entryLocator c \<noteq> ''.col-lg-9 > a''
       \<and> (paginationAffordanceLocator c = None \<or> paginationAffordanceLocator c = Some ''.col-lg-9 > a'')
       \<and> writable (after_cookies (shop p r menu6) world0) (outputName c)"
    by (simp add: after_cookies_frame menu6_def CATEGORY_SPECS_def world0_def)
qed

lemma shop_run_menu2:
  assumes "\<And>b. get_single_page_products (shop p r menu2) b = Inr ps"
  shows "\<exists>result w'. spec_run (shop p r menu2) (take 2 CATEGORY_SPECS) Map.empty
           (after_cookies (shop p r menu2) world0) = Some (Inr result, w')
         \<and> (\<forall>c\<in>set (take 2 CATEGORY_SPECS). result (outputName c) = Some ps)"
proof (rule shop_spec_run [OF _ assms])
  show "\<forall>c\<in>set (take 2 CATEGORY_SPECS). entryLocator c \<in> set menu2 \<and> entryLocator c \<noteq> ''.thumbnail''
       \<and> entryLocator c \<noteq> ''.col-lg-9 > a''
       \<and> (paginationAffordanceLocator c = None \<or> paginationAffordanceLocator c = Some ''.col-lg-9 > a'')
       \<and> writable (after_cookies (shop p r menu2) world0) (outputName c)"
    by (simp add: after_cookies_frame menu2_def CATEGORY_SPECS_def world0_def)
qed

section \<open>The run: the claims\<close>

lemma distinct_outputNames: "distinct (map outputName CATEGORY_SPECS)"
  by (simp add: CATEGORY_SPECS_def)

lemma spec_run_split:
  assumes "spec_run drv (take k cs) acc0 w0 = Some (Inr acc, w1)"
  shows "spec_run drv cs acc0 w0 = spec_run drv (drop k cs) acc w1"
proof -
  have "spec_run drv (take k cs @ drop k cs) acc0 w0 = spec_run drv (drop k cs) acc w1"
    by (simp only: spec_run_append assms option.case prod.case sum.case)
  then show ?thesis by simp
qed

lemma get_all_products_entry_absent:
  assumes "k < length CATEGORY_SPECS"
    and "spec_run drv (take k CATEGORY_SPECS) Map.empty (after_cookies drv w) = Some (Inr acc, w1)"
    and "find_elements drv (browser w1) None (entryLocator (CATEGORY_SPECS ! k)) = []"
  shows "get_all_products drv w =
     Some (Inl NoSuchElementException,
           logging_info (''Start parsing ''
             @ py_replace (outputName (CATEGORY_SPECS ! k)) ''.csv'' '''' @ '' products'') w1)"
proof -
  let ?c = "CATEGORY_SPECS ! k"
  let ?w2 = "logging_info (''Start parsing '' @ py_replace (outputName ?c) ''.csv'' '''' @ '' products'') w1"
  from assms(1) have d: "drop k CATEGORY_SPECS = ?c # drop (Suc k) CATEGORY_SPECS"
    by (simp add: Cons_nth_drop_Suc)
  from assms(3)
  have "scrape_products drv (entryLocator ?c) (outputName ?c) (paginationAffordanceLocator ?c) w1
      = Some (Inl NoSuchElementException, ?w2)"
    by (simp add: scrape_products_absent)
  then have "spec_run drv (drop k CATEGORY_SPECS) acc w1 = Some (Inl NoSuchElementException, ?w2)"
    by (simp add: d)
  with assms(2) have "spec_run drv CATEGORY_SPECS Map.empty (after_cookies drv w)
      = Some (Inl NoSuchElementException, ?w2)"
    by (simp add: spec_run_split [of drv k CATEGORY_SPECS Map.empty "after_cookies drv w" acc w1])
  then show ?thesis
    by (simp add: get_all_products_as_loop)
qed

text \<open>
  C5. When any field of an item fails, the extraction of the item fails and gives no
  product: in particular when the price text, its dollar signs removed, is not a
  number, which is a \<open>ValueError\<close>. A product that is returned has all five fields,
  each the value its own extraction gave. An item that fails leaves the page without a
  product list, and the category with an error and no file written: nothing of the
  item is persisted.
\<close>

theorem parse_single_product_all_or_nothing:
  "(isl (title_field drv b item) \<or> isl (description_field drv b item)
      \<or> isl (price_field drv b item) \<or> isl (num_of_reviews_field drv b item)
     \<longrightarrow> isl (parse_single_product drv b item))
   \<and> (\<forall>el. find_element drv b (Some item) ''.price'' = Inr el
          \<and> py_float (py_replace (el_text drv b el) ''$'' '''') = None
        \<longrightarrow> price_field drv b item = Inl ValueError \<and> isl (parse_single_product drv b item))
   \<and> (\<forall>p. parse_single_product drv b item = Inr p
        \<longrightarrow> title_field drv b item = Inr (title p)
          \<and> description_field drv b item = Inr (description p)
          \<and> price_field drv b item = Inr (price p)
          \<and> rating_field drv b item = Inr (rating p)
          \<and> num_of_reviews_field drv b item = Inr (num_of_reviews p))
   \<and> (item \<in> set (find_elements drv b None ''.thumbnail'') \<and> isl (parse_single_product drv b item)
        \<longrightarrow> isl (get_single_page_products drv b))
   \<and> (\<forall>sel fn pag w r w'.
         scrape_products drv sel fn pag w = Some (r, w')
         \<and> item \<in> set (find_elements drv (browser w') None ''.thumbnail'')
         \<and> isl (parse_single_product drv (browser w') item)
       \<longrightarrow> isl r \<and> files w' = files w)"
proof (intro conjI allI impI)
  assume "isl (title_field drv b item) \<or> isl (description_field drv b item)
      \<or> isl (price_field drv b item) \<or> isl (num_of_reviews_field drv b item)"
  then show "isl (parse_single_product drv b item)"
    by (auto simp: parse_single_product_def split: sum.splits)
next
  fix el
  assume a: "find_element drv b (Some item) ''.price'' = Inr el
          \<and> py_float (py_replace (el_text drv b el) ''$'' '''') = None"
  then show "price_field drv b item = Inl ValueError"
    by (simp add: price_field_def)
  then show "isl (parse_single_product drv b item)"
    by (auto simp: parse_single_product_def split: sum.splits)
next
  fix p
  assume "parse_single_product drv b item = Inr p"
  then have "title_field drv b item = Inr (title p)
          \<and> description_field drv b item = Inr (description p)
          \<and> price_field drv b item = Inr (price p)
          \<and> rating_field drv b item = Inr (rating p)
          \<and> num_of_reviews_field drv b item = Inr (num_of_reviews p)"
    by (auto simp: parse_single_product_def split: sum.splits)
  then show "title_field drv b item = Inr (title p)"
    and "description_field drv b item = Inr (description p)"
    and "price_field drv b item = Inr (price p)"
    and "rating_field drv b item = Inr (rating p)"
    and "num_of_reviews_field drv b item = Inr (num_of_reviews p)"
    by simp_all
next
  assume "item \<in> set (find_elements drv b None ''.thumbnail'') \<and> isl (parse_single_product drv b item)"
  then show "isl (get_single_page_products drv b)"
    by (auto simp: get_single_page_products_def intro: comprehension_fails)
next
  fix sel fn pag w r w'
  assume a: "scrape_products drv sel fn pag w = Some (r, w')
         \<and> item \<in> set (find_elements drv (browser w') None ''.thumbnail'')
         \<and> isl (parse_single_product drv (browser w') item)"
  then have "isl (get_single_page_products drv (browser w'))"
    by (auto simp: get_single_page_products_def intro: comprehension_fails)
  with a scrape_products_frame [of drv sel fn pag w r w']
  have "isl r \<and> files w' = files w"
    by (cases r) auto
  then show "isl r" and "files w' = files w"
    by simp_all
qed

theorem parse_single_product_all_or_nothing_witness:
  "find_element (shop ''$abc'' ''3 reviews'' menu6) 0 (Some 20) ''.price'' = Inr 23
   \<and> py_float (py_replace (el_text (shop ''$abc'' ''3 reviews'' menu6) 0 23) ''$'' '''') = None
   \<and> price_field (shop ''$abc'' ''3 reviews'' menu6) 0 20 = Inl ValueError
   \<and> isl (parse_single_product (shop ''$abc'' ''3 reviews'' menu6) 0 20)
   \<and> 20 \<in> set (find_elements (shop ''$abc'' ''3 reviews'' menu6) 0 None ''.thumbnail'')
   \<and> isl (get_single_page_products (shop ''$abc'' ''3 reviews'' menu6) 0)
   \<and> parse_single_product (shop ''$abc'' ''3 reviews'' menu6) 0 10 = Inr widget
   \<and> price_field (shop ''$abc'' ''3 reviews'' menu6) 0 10 = Inr (price widget)
   \<and> scrape_products (shop ''$abc'' ''3 reviews'' menu6) ''#side-menu a'' ''home.csv'' None world0
       = Some (Inl ValueError, world0\<lparr>log := [''Start parsing home products''], clicks := [2]\<rparr>)
   \<and> files (world0\<lparr>log := [''Start parsing home products''], clicks := [2]\<rparr>) = files world0"
proof -
  let ?s = "shop ''$abc'' ''3 reviews'' menu6"
  let ?w = "world0\<lparr>log := [''Start parsing home products''], clicks := [2]\<rparr>"
  have a: "find_element ?s 0 (Some 20) ''.price'' = Inr 23
      \<and> py_float (py_replace (el_text ?s 0 23) ''$'' '''') = None"
    by (simp add: find_element_def py_defs)
  have b: "20 \<in> set (find_elements ?s 0 None ''.thumbnail'')"
    by simp
  have c: "parse_single_product ?s 0 10 = Inr widget"
    by (rule parse_widget)
  from parse_single_product_all_or_nothing [of ?s 0 20] a
  have d: "price_field ?s 0 20 = Inl ValueError \<and> isl (parse_single_product ?s 0 20)"
    by blast
  with parse_single_product_all_or_nothing [of ?s 0 20] b
  have e: "isl (get_single_page_products ?s 0)"
    by blast
  from parse_single_product_all_or_nothing [of ?s 0 10] c
  have f: "price_field ?s 0 10 = Inr (price widget)"
    by blast
  have g: "scrape_products ?s ''#side-menu a'' ''home.csv'' None world0 = Some (Inl ValueError, ?w)"
    by (rule shop_scrape_bad_price)
  have "browser ?w = 0" by (simp add: world0_def)
  with b d have "20 \<in> set (find_elements ?s (browser ?w) None ''.thumbnail'')
      \<and> isl (parse_single_product ?s (browser ?w) 20)"
    by simp
  with parse_single_product_all_or_nothing [of ?s 0 20] g
  have h: "files ?w = files world0"
    by blast
  from a b c d e f g h show ?thesis by blast
qed

text \<open>
  C8. A category whose entry link is absent raises \<open>NoSuchElementException\<close> out of
  \<open>scrape_products\<close>, having logged its start only, and the exception ends the run:
  whichever of the six categories it is, \<open>get_all_products\<close> raises it in the state
  in which that category started. An absent cookie button is caught: \<open>accept_cookies\<close>
  returns normally, the state unchanged but for the log line, and the run goes on to
  the categories from that state.
\<close>

theorem absent_entry_fatal_absent_cookie_tolerated:
  "(find_elements drv (browser w) None sel = []
      \<longrightarrow> scrape_products drv sel fn pag w =
            Some (Inl NoSuchElementException,
                  w\<lparr>log := log w @ [''Start parsing '' @ py_replace fn ''.csv'' '''' @ '' products'']\<rparr>))
   \<and> (\<forall>k acc w1.
         k < length CATEGORY_SPECS
         \<and> spec_run drv (take k CATEGORY_SPECS) Map.empty (after_cookies drv w) = Some (Inr acc, w1)
         \<and> find_elements drv (browser w1) None (entryLocator (CATEGORY_SPECS ! k)) = []
       \<longrightarrow> get_all_products drv w =
             Some (Inl NoSuchElementException,
                   w1\<lparr>log := log w1 @ [''Start parsing ''
                          @ py_replace (outputName (CATEGORY_SPECS ! k)) ''.csv'' '''' @ '' products'']\<rparr>))
   \<and> (find_elements drv (browser w) None ''#cookieBanner > div.acceptContainer > button'' = []
      \<longrightarrow> accept_cookies drv w = (Inr (), w\<lparr>log := log w @ [''Cookie accept button not found.'']\<rparr>))
   \<and> (find_elements drv (get_url drv (browser w) HOME_URL) None
          ''#cookieBanner > div.acceptContainer > button'' = []
      \<longrightarrow> after_cookies drv w =
            w\<lparr>browser := get_url drv (browser w) HOME_URL,
              log := log w @ [''Cookie accept button not found.'']\<rparr>
        \<and> get_all_products drv w =
            (case spec_run drv CATEGORY_SPECS Map.empty (after_cookies drv w) of
               None \<Rightarrow> None
             | Some (Inl e, w') \<Rightarrow> Some (Inl e, w')
             | Some (Inr result, w') \<Rightarrow> Some (Inr (), w')))"
proof (intro conjI allI impI)
  assume "find_elements drv (browser w) None sel = []"
  then show "scrape_products drv sel fn pag w =
            Some (Inl NoSuchElementException,
                  w\<lparr>log := log w @ [''Start parsing '' @ py_replace fn ''.csv'' '''' @ '' products'']\<rparr>)"
    by (simp add: scrape_products_absent logging_info_def)
next
  fix k acc w1
  assume a: "k < length CATEGORY_SPECS
         \<and> spec_run drv (take k CATEGORY_SPECS) Map.empty (after_cookies drv w) = Some (Inr acc, w1)
         \<and> find_elements drv (browser w1) None (entryLocator (CATEGORY_SPECS ! k)) = []"
  then have "get_all_products drv w =
     Some (Inl NoSuchElementException,
           logging_info (''Start parsing ''
             @ py_replace (outputName (CATEGORY_SPECS ! k)) ''.csv'' '''' @ '' products'') w1)"
    by (intro get_all_products_entry_absent) simp_all
  then show "get_all_products drv w =
             Some (Inl NoSuchElementException,
                   w1\<lparr>log := log w1 @ [''Start parsing ''
                          @ py_replace (outputName (CATEGORY_SPECS ! k)) ''.csv'' '''' @ '' products'']\<rparr>)"
    by (simp add: logging_info_def)
next
  assume "find_elements drv (browser w) None ''#cookieBanner > div.acceptContainer > button'' = []"
  then show "accept_cookies drv w = (Inr (), w\<lparr>log := log w @ [''Cookie accept button not found.'']\<rparr>)"
    by (simp add: accept_cookies_def find_element_absent logging_info_def)
next
  assume "find_elements drv (get_url drv (browser w) HOME_URL) None
          ''#cookieBanner > div.acceptContainer > button'' = []"
  then show "after_cookies drv w =
            w\<lparr>browser := get_url drv (browser w) HOME_URL,
              log := log w @ [''Cookie accept button not found.'']\<rparr>"
    by (simp add: after_cookies_def accept_cookies_def find_element_absent logging_info_def
        driver_get_def)
next
  show "get_all_products drv w =
            (case spec_run drv CATEGORY_SPECS Map.empty (after_cookies drv w) of
               None \<Rightarrow> None
             | Some (Inl e, w') \<Rightarrow> Some (Inl e, w')
             | Some (Inr result, w') \<Rightarrow> Some (Inr (), w'))"
    by (rule get_all_products_as_loop)
qed

theorem absent_entry_fatal_absent_cookie_tolerated_witness:
  "find_elements (shop ''$5'' ''3 reviews'' []) (browser world0) None ''#side-menu a'' = []
   \<and> scrape_products (shop ''$5'' ''3 reviews'' []) ''#side-menu a'' ''home.csv'' None world0 =
       Some (Inl NoSuchElementException, world0\<lparr>log := [''Start parsing home products'']\<rparr>)
   \<and> accept_cookies (shop ''$5'' ''3 reviews'' []) world0 =
       (Inr (), world0\<lparr>log := [''Cookie accept button not found.'']\<rparr>)
   \<and> get_all_products (shop ''$5'' ''3 reviews'' []) world0 =
       Some (Inl NoSuchElementException,
             world0\<lparr>log := [''Cookie accept button not found.'', ''Start parsing home products'']\<rparr>)"
proof -
  let ?s = "shop ''$5'' ''3 reviews'' []"
  let ?w1 = "world0\<lparr>log := [''Cookie accept button not found.'']\<rparr>"
  note t = absent_entry_fatal_absent_cookie_tolerated [of ?s world0 "''#side-menu a''" "''home.csv''" None]
  have a: "find_elements ?s (browser world0) None ''#side-menu a'' = []"
    by (simp add: shop_link)
  have b: "find_elements ?s (browser world0) None ''#cookieBanner > div.acceptContainer > button'' = []"
    by (simp add: shop_link)
  have c: "after_cookies ?s world0 = ?w1"
    by (simp add: shop_after_cookies)
  have d: "0 < length CATEGORY_SPECS
         \<and> spec_run ?s (take 0 CATEGORY_SPECS) Map.empty (after_cookies ?s world0) = Some (Inr Map.empty, ?w1)
         \<and> find_elements ?s (browser ?w1) None (entryLocator (CATEGORY_SPECS ! 0)) = []"
    by (simp add: c) (simp add: CATEGORY_SPECS_def shop_link)
  from t a have e: "scrape_products ?s ''#side-menu a'' ''home.csv'' None world0 =
       Some (Inl NoSuchElementException,
             world0\<lparr>log := log world0 @ [''Start parsing '' @ py_replace ''home.csv'' ''.csv'' '''' @ '' products'']\<rparr>)"
    by blast
  from t b have f: "accept_cookies ?s world0 =
       (Inr (), world0\<lparr>log := log world0 @ [''Cookie accept button not found.'']\<rparr>)"
    by blast
  from t d have g: "get_all_products ?s world0 =
       Some (Inl NoSuchElementException,
             ?w1\<lparr>log := log ?w1 @ [''Start parsing ''
                  @ py_replace (outputName (CATEGORY_SPECS ! 0)) ''.csv'' '''' @ '' products'']\<rparr>)"
    by blast
  have h: "py_replace ''home.csv'' ''.csv'' '''' = ''home''"
    by (simp add: py_replace_def)
  have i: "outputName (CATEGORY_SPECS ! 0) = ''home.csv''"
    by (simp add: CATEGORY_SPECS_def)
  from a e f g show ?thesis
    by (simp add: h i world0_def)
qed

text \<open>
  C9. A category writes its file within its own step: in the state in which the next
  category starts, the file of every category done so far holds its header and its
  products. When the run then raises in a later category, these files are in the final
  state what they were at that point: the run is not undone.
\<close>

theorem earlier_categories_stay_written:
  assumes "spec_run drv (take k CATEGORY_SPECS) Map.empty (after_cookies drv w) = Some (Inr acc, w1)"
    and "get_all_products drv w = Some (Inl e, w2)"
    and "i < k" and "k \<le> length CATEGORY_SPECS"
  shows "\<exists>products.
       acc (outputName (CATEGORY_SPECS ! i)) = Some products
     \<and> files w1 (outputName (CATEGORY_SPECS ! i)) = Some (map CStr PRODUCT_FIELDS # map astuple products)
     \<and> files w2 (outputName (CATEGORY_SPECS ! i)) = files w1 (outputName (CATEGORY_SPECS ! i))"
proof -
  let ?pre = "take k CATEGORY_SPECS" and ?post = "drop k CATEGORY_SPECS"
  let ?c = "CATEGORY_SPECS ! i"
  from assms(3,4) have c: "?c \<in> set ?pre"
    by (metis in_set_conv_nth length_take min.absorb2 nth_take)
  have "distinct (map outputName (?pre @ ?post))"
    using distinct_outputNames by simp
  then have dp: "distinct (map outputName ?pre)"
    and dj: "outputName ` set ?pre \<inter> outputName ` set ?post = {}"
    by (simp_all only: map_append distinct_append set_map)
  from spec_run_written [OF assms(1) dp c] obtain products where
    p: "acc (outputName ?c) = Some products"
       "files w1 (outputName ?c) = Some (map CStr PRODUCT_FIELDS # map astuple products)"
    by blast
  from assms(2) have "spec_run drv ?post acc w1 = Some (Inl e, w2)"
    unfolding get_all_products_as_loop spec_run_split [OF assms(1)]
    by (auto split: option.splits sum.splits prod.splits)
  moreover from c dj have "outputName ?c \<notin> outputName ` set ?post"
    by blast
  ultimately have "files w2 (outputName ?c) = files w1 (outputName ?c)"
    by (rule spec_run_files_other)
  with p show ?thesis by blast
qed

theorem earlier_categories_stay_written_witness:
  "map_option fst (get_all_products (shop ''$5'' ''3 reviews'' menu2) world0)
     = Some (Inl NoSuchElementException)
   \<and> files (snd (the (get_all_products (shop ''$5'' ''3 reviews'' menu2) world0))) ''home.csv''
     = Some (map CStr PRODUCT_FIELDS # map astuple [widget, gadget (Finite 5) 3])
   \<and> files (snd (the (get_all_products (shop ''$5'' ''3 reviews'' menu2) world0))) ''computers.csv''
     = Some (map CStr PRODUCT_FIELDS # map astuple [widget, gadget (Finite 5) 3])"
proof -
  let ?s = "shop ''$5'' ''3 reviews'' menu2"
  let ?ps = "[widget, gadget (Finite 5) 3]"
  from shop_run_menu2 [of "''$5''" "''3 reviews''" ?ps] shop_page_5
  obtain acc w1 where
    r: "spec_run ?s (take 2 CATEGORY_SPECS) Map.empty (after_cookies ?s world0) = Some (Inr acc, w1)"
    and a: "\<forall>c\<in>set (take 2 CATEGORY_SPECS). acc (outputName c) = Some ?ps"
    by blast
  have "find_elements ?s (browser w1) None (entryLocator (CATEGORY_SPECS ! 2)) = []"
    by (simp add: shop_link menu2_def CATEGORY_SPECS_def)
  from get_all_products_entry_absent [OF _ r this]
  obtain w2 where g: "get_all_products ?s world0 = Some (Inl NoSuchElementException, w2)"
    by (simp add: CATEGORY_SPECS_def)
  have n: "outputName (CATEGORY_SPECS ! 0) = ''home.csv''"
    "outputName (CATEGORY_SPECS ! Suc 0) = ''computers.csv''"
    by (simp_all add: CATEGORY_SPECS_def)
  from a have a': "acc ''home.csv'' = Some ?ps" "acc ''computers.csv'' = Some ?ps"
    by (simp_all add: CATEGORY_SPECS_def)
  have k: "2 \<le> length CATEGORY_SPECS"
    by (simp add: CATEGORY_SPECS_def)
  from earlier_categories_stay_written [OF r g _ k, of 0] a'
  have h: "files w2 ''home.csv'' = Some (map CStr PRODUCT_FIELDS # map astuple ?ps)"
    by (auto simp: n)
  from earlier_categories_stay_written [OF r g _ k, of 1] a'
  have c: "files w2 ''computers.csv'' = Some (map CStr PRODUCT_FIELDS # map astuple ?ps)"
    by (auto simp: n)
  from g h c show ?thesis by simp
qed

text \<open>
  C3, as amended. The run takes no list of categories and returns no result:
  \<open>get_all_products\<close> scrapes the six categories written into it, in their order, as
  the loop of the specification would over that list, and returns nothing. The
  products of a category are returned by \<open>scrape_products\<close> and dropped; what the
  loop would accumulate for a category is what the file of that category holds when
  the run returns.
\<close>

theorem get_all_products_returns_nothing:
  "get_all_products drv w =
     (case spec_run drv CATEGORY_SPECS Map.empty (after_cookies drv w) of
        None \<Rightarrow> None
      | Some (Inl e, w') \<Rightarrow> Some (Inl e, w')
      | Some (Inr result, w') \<Rightarrow> Some (Inr (), w'))
   \<and> (\<forall>result w'.
         spec_run drv CATEGORY_SPECS Map.empty (after_cookies drv w) = Some (Inr result, w')
       \<longrightarrow> get_all_products drv w = Some (Inr (), w')
          \<and> (\<forall>c\<in>set CATEGORY_SPECS. \<exists>products.
                result (outputName c) = Some products
              \<and> files w' (outputName c) = Some (map CStr PRODUCT_FIELDS # map astuple products)))"
proof (intro conjI allI impI ballI)
  show "get_all_products drv w =
     (case spec_run drv CATEGORY_SPECS Map.empty (after_cookies drv w) of
        None \<Rightarrow> None
      | Some (Inl e, w') \<Rightarrow> Some (Inl e, w')
      | Some (Inr result, w') \<Rightarrow> Some (Inr (), w'))"
    by (rule get_all_products_as_loop)
next
  fix result w'
  assume "spec_run drv CATEGORY_SPECS Map.empty (after_cookies drv w) = Some (Inr result, w')"
  then show "get_all_products drv w = Some (Inr (), w')"
    by (simp add: get_all_products_as_loop)
next
  fix result w' c
  assume "spec_run drv CATEGORY_SPECS Map.empty (after_cookies drv w) = Some (Inr result, w')"
    and "c \<in> set CATEGORY_SPECS"
  then show "\<exists>products. result (outputName c) = Some products
      \<and> files w' (outputName c) = Some (map CStr PRODUCT_FIELDS # map astuple products)"
    using distinct_outputNames by (intro spec_run_written)
qed

theorem get_all_products_returns_nothing_witness:
  "map_option fst (get_all_products (shop ''$5'' ''3 reviews'' menu6) world0) = Some (Inr ())
   \<and> files (snd (the (get_all_products (shop ''$5'' ''3 reviews'' menu6) world0))) ''touch.csv''
     = Some (map CStr PRODUCT_FIELDS # map astuple [widget, gadget (Finite 5) 3])"
proof -
  let ?s = "shop ''$5'' ''3 reviews'' menu6"
  let ?ps = "[widget, gadget (Finite 5) 3]"
  from shop_run_menu6 [of "''$5''" "''3 reviews''" ?ps] shop_page_5
  obtain result w' where
    r: "spec_run ?s CATEGORY_SPECS Map.empty (after_cookies ?s world0) = Some (Inr result, w')"
    and a: "\<forall>c\<in>set CATEGORY_SPECS. result (outputName c) = Some ?ps"
    by blast
  from a have t: "result ''touch.csv'' = Some ?ps"
    by (simp add: CATEGORY_SPECS_def)
  from get_all_products_returns_nothing [of ?s world0] r
  have g: "get_all_products ?s world0 = Some (Inr (), w')"
    and f: "\<forall>c\<in>set CATEGORY_SPECS. \<exists>products. result (outputName c) = Some products
              \<and> files w' (outputName c) = Some (map CStr PRODUCT_FIELDS # map astuple products)"
    by blast+
  from f have "\<exists>products. result ''touch.csv'' = Some products
      \<and> files w' ''touch.csv'' = Some (map CStr PRODUCT_FIELDS # map astuple products)"
    by (simp add: CATEGORY_SPECS_def)
  with t have "files w' ''touch.csv'' = Some (map CStr PRODUCT_FIELDS # map astuple ?ps)"
    by auto
  with g show ?thesis by simp
qed

text \<open>
  C3 as stated fails. In two shops that differ in the price of a product the run
  returns the same value, the unit, while the results the loop of the specification
  accumulates differ: what the run returns is no mapping from the output names to the
  products.
\<close>

theorem get_all_products_result_counterexample:
  "map_option fst (get_all_products (shop ''$5'' ''3 reviews'' menu6) world0) = Some (Inr ())
   \<and> map_option fst (get_all_products (shop ''$6'' ''3 reviews'' menu6) world0) = Some (Inr ())
   \<and> projr (fst (the (spec_run (shop ''$5'' ''3 reviews'' menu6) CATEGORY_SPECS Map.empty
        (after_cookies (shop ''$5'' ''3 reviews'' menu6) world0)))) ''home.csv''
       = Some [widget, gadget (Finite 5) 3]
   \<and> projr (fst (the (spec_run (shop ''$6'' ''3 reviews'' menu6) CATEGORY_SPECS Map.empty
        (after_cookies (shop ''$6'' ''3 reviews'' menu6) world0)))) ''home.csv''
       = Some [widget, gadget (Finite 6) 3]
   \<and> gadget (Finite 5) 3 \<noteq> gadget (Finite 6) 3"
proof -
  let ?s = "shop ''$5'' ''3 reviews'' menu6" and ?t = "shop ''$6'' ''3 reviews'' menu6"
  from shop_run_menu6 [of "''$5''" "''3 reviews''" "[widget, gadget (Finite 5) 3]"] shop_page_5
  obtain r5 w5 where
    s: "spec_run ?s CATEGORY_SPECS Map.empty (after_cookies ?s world0) = Some (Inr r5, w5)"
    and a: "\<forall>c\<in>set CATEGORY_SPECS. r5 (outputName c) = Some [widget, gadget (Finite 5) 3]"
    by blast
  from shop_run_menu6 [of "''$6''" "''3 reviews''" "[widget, gadget (Finite 6) 3]"] shop_page_6
  obtain r6 w6 where
    t: "spec_run ?t CATEGORY_SPECS Map.empty (after_cookies ?t world0) = Some (Inr r6, w6)"
    and b: "\<forall>c\<in>set CATEGORY_SPECS. r6 (outputName c) = Some [widget, gadget (Finite 6) 3]"
    by blast
  from a have a': "r5 ''home.csv'' = Some [widget, gadget (Finite 5) 3]"
    by (simp add: CATEGORY_SPECS_def)
  from b have b': "r6 ''home.csv'' = Some [widget, gadget (Finite 6) 3]"
    by (simp add: CATEGORY_SPECS_def)
  have "get_all_products ?s world0 = Some (Inr (), w5)"
    and "get_all_products ?t world0 = Some (Inr (), w6)"
    by (simp_all add: get_all_products_as_loop s t)
  with s t a' b' show ?thesis
    by (simp add: gadget_def)
qed

end
